theory Spec2Isabelle
  imports Main
begin

section \<open>Data model of \<^verbatim>\<open>src/server.js\<close>\<close>

text \<open>
  The coordination server keeps a static array \<^verbatim>\<open>databases\<close> of node descriptors, a
  reference \<^verbatim>\<open>coordinator\<close> to one of them (or null), a counter \<^verbatim>\<open>globalTerm\<close> and a
  dictionary \<^verbatim>\<open>models\<close> from node id to the Mongoose models of that node. Every node has
  its own MongoDB storage with a \<^verbatim>\<open>Test\<close> collection and a \<^verbatim>\<open>Metadata\<close> collection that
  holds the document with key "term".

  The descriptors are JavaScript objects that are mutated in place and never copied; the
  array holds the ids 2 and 1. An object reference is modelled by the id of the
  descriptor, which is the same thing as long as the ids of the array are distinct. The
  fields \<^verbatim>\<open>name\<close> and \<^verbatim>\<open>uri\<close> are constants used for logging and connecting only and are
  left out; \<^verbatim>\<open>connection\<close> is modelled by whether it is non-null.
\<close>

datatype role = Unknown | Master | Slave

record db =
  db_id :: int
  role :: role
  alive :: bool
  connection :: bool
  db_term :: int

text \<open>
  A document of the \<^verbatim>\<open>Test\<close> collection: the \<^verbatim>\<open>_id\<close> that Mongoose assigns to a document
  when it is constructed without one, and the two fields of \<^verbatim>\<open>testSchema\<close>.
\<close>

record doc =
  oid :: nat
  data :: string
  createdAt :: nat

record store =
  tests :: "doc list"
  metadata :: "int option"

text \<open>
  The state of the process together with the part of the world it acts on. \<open>stores\<close> is
  the storage behind each node id. \<open>outcomes\<close> decides the awaited storage calls in the
  order in which they are made: \<open>False\<close> makes the call reject (the \<^verbatim>\<open>await\<close> throws),
  \<open>True\<close> and an exhausted list make it succeed. \<open>next_oid\<close> is the source of the fresh
  object ids.
\<close>

record state =
  databases :: "db list"
  coordinator :: "int option"
  globalTerm :: int
  models :: "int set"
  stores :: "int \<Rightarrow> store"
  outcomes :: "bool list"
  next_oid :: nat

text \<open>What a function of the source does: it returns, or an exception leaves it.\<close>

datatype 'a result = Returned 'a | Threw

definition lookup :: "int \<Rightarrow> db list \<Rightarrow> db option" where
  "lookup i dbs = find (\<lambda>d. db_id d = i) dbs"

definition modify :: "int \<Rightarrow> (db \<Rightarrow> db) \<Rightarrow> state \<Rightarrow> state" where
  "modify i f s = s\<lparr>databases := map (\<lambda>d. if db_id d = i then f d else d) (databases s)\<rparr>"

definition term_of :: "state \<Rightarrow> int \<Rightarrow> int" where
  "term_of s i = (case lookup i (databases s) of Some d \<Rightarrow> db_term d | None \<Rightarrow> 0)"

definition alive_of :: "state \<Rightarrow> int \<Rightarrow> bool" where
  "alive_of s i = (case lookup i (databases s) of Some d \<Rightarrow> alive d | None \<Rightarrow> False)"

definition role_of :: "state \<Rightarrow> int \<Rightarrow> role" where
  "role_of s i = (case lookup i (databases s) of Some d \<Rightarrow> role d | None \<Rightarrow> Unknown)"

definition await :: "state \<Rightarrow> bool \<times> state" where
  "await s = (case outcomes s of [] \<Rightarrow> (True, s) | b # bs \<Rightarrow> (b, s\<lparr>outcomes := bs\<rparr>))"

definition set_tests :: "int \<Rightarrow> doc list \<Rightarrow> state \<Rightarrow> state" where
  "set_tests i ds s = s\<lparr>stores := (stores s)(i := (stores s i)\<lparr>tests := ds\<rparr>)\<rparr>"

definition set_metadata :: "int \<Rightarrow> int option \<Rightarrow> state \<Rightarrow> state" where
  "set_metadata i m s = s\<lparr>stores := (stores s)(i := (stores s i)\<lparr>metadata := m\<rparr>)\<rparr>"

text \<open>
  \<^verbatim>\<open>Metadata.updateOne({ key: "term" }, { term: t })\<close> on the node \<open>i\<close>: the access
  \<^verbatim>\<open>models[i].Metadata\<close> throws a TypeError when the node has no models; the awaited call
  may reject; otherwise the term document is updated, and created only with
  \<^verbatim>\<open>{ upsert: true }\<close>.
\<close>

definition updateOne :: "int \<Rightarrow> int \<Rightarrow> bool \<Rightarrow> state \<Rightarrow> unit result \<times> state" where
  "updateOne i t upsert s =
     (if i \<notin> models s then (Threw, s)
      else case await s of
        (False, s1) \<Rightarrow> (Threw, s1)
      | (True, s1) \<Rightarrow>
          (if metadata (stores s1 i) = None \<and> \<not> upsert then (Returned (), s1)
           else (Returned (), set_metadata i (Some t) s1)))"

text \<open>
  \<^verbatim>\<open>Test.insertMany(masterData.map((d) => ({ data: d.data, createdAt: d.createdAt })))\<close>:
  the plain objects carry no \<^verbatim>\<open>_id\<close>, so every inserted document is given a fresh one.
\<close>

fun fresh_copies :: "nat \<Rightarrow> doc list \<Rightarrow> doc list" where
  "fresh_copies n [] = []"
| "fresh_copies n (d # ds) =
     \<lparr>oid = n, data = data d, createdAt = createdAt d\<rparr> # fresh_copies (Suc n) ds"

definition insertMany :: "int \<Rightarrow> doc list \<Rightarrow> state \<Rightarrow> unit result \<times> state" where
  "insertMany i ds s =
     (let new = fresh_copies (next_oid s) ds;
          s0 = s\<lparr>next_oid := next_oid s + length ds\<rparr>
      in case await s0 of
        (False, s1) \<Rightarrow> (Threw, s1)
      | (True, s1) \<Rightarrow> (Returned (), set_tests i (tests (stores s1 i) @ new) s1))"

section \<open>Replication: \<^verbatim>\<open>syncDataFromMaster\<close>\<close>

definition syncDataFromMaster :: "int \<Rightarrow> int \<Rightarrow> state \<Rightarrow> unit result \<times> state" where
  "syncDataFromMaster d m s =
     (if d = m then (Returned (), s)
      else if d \<notin> models s \<or> m \<notin> models s then (Returned (), s)
      else case await s of
        (False, s1) \<Rightarrow> (Threw, s1)
      | (True, s1) \<Rightarrow>
          (let masterData = tests (stores s1 m) in
           case await s1 of
             (False, s2) \<Rightarrow> (Threw, s2)
           | (True, s2) \<Rightarrow>
               (case (if masterData \<noteq> [] then insertMany d masterData (set_tests d [] s2)
                      else (Returned (), set_tests d [] s2)) of
                  (Threw, s3) \<Rightarrow> (Threw, s3)
                | (Returned _, s3) \<Rightarrow>
                    (let s4 = modify d (\<lambda>x. x\<lparr>db_term := term_of s3 m\<rparr>) s3
                     in updateOne d (term_of s4 d) False s4))))"

section \<open>Election: \<^verbatim>\<open>getHighestTerm\<close>, \<^verbatim>\<open>canBecomeMaster\<close>, \<^verbatim>\<open>electCoordinator\<close>\<close>

definition getHighestTerm :: "state \<Rightarrow> int" where
  "getHighestTerm s =
     (let aliveDbs = filter alive (databases s)
      in if aliveDbs = [] then 0 else Max (set (map db_term aliveDbs)))"

definition canBecomeMaster :: "int \<Rightarrow> state \<Rightarrow> bool result \<times> state" where
  "canBecomeMaster d s =
     (let highestTerm = getHighestTerm s in
      if term_of s d < highestTerm then
        (case (case coordinator s of None \<Rightarrow> None | Some c \<Rightarrow> lookup c (databases s)) of
           None \<Rightarrow> (Returned False, s)
         | Some master \<Rightarrow>
             (case syncDataFromMaster d (db_id master) s of
                (Threw, s1) \<Rightarrow> (Threw, s1)
              | (Returned _, s1) \<Rightarrow> (Returned False, s1)))
      else (Returned True, s))"

text \<open>
  The body of the inner loop of \<^verbatim>\<open>electCoordinator\<close> for a node \<open>other\<close> that is not the
  winner \<open>w\<close>, and the inner loop over \<^verbatim>\<open>aliveDbs\<close>.
\<close>

definition demote :: "int \<Rightarrow> int \<Rightarrow> state \<Rightarrow> unit result \<times> state" where
  "demote other w s =
     (let s1 = modify other (\<lambda>x. x\<lparr>role := Slave, db_term := globalTerm s\<rparr>) s in
      case updateOne other (globalTerm s1) True s1 of
        (Threw, s2) \<Rightarrow> (Threw, s2)
      | (Returned _, s2) \<Rightarrow> syncDataFromMaster other w s2)"

fun demote_others :: "int list \<Rightarrow> int \<Rightarrow> state \<Rightarrow> unit result \<times> state" where
  "demote_others [] w s = (Returned (), s)"
| "demote_others (other # rest) w s =
     (if other \<noteq> w then
        (case demote other w s of
           (Threw, s1) \<Rightarrow> (Threw, s1)
         | (Returned _, s1) \<Rightarrow> demote_others rest w s1)
      else demote_others rest w s)"

text \<open>
  The branch of the outer loop in which the candidate \<open>d\<close> wins, and the outer loop:
  \<open>cands\<close> is what is left of \<^verbatim>\<open>aliveDbs\<close>, \<open>aliveDbs\<close> the whole array.
\<close>

definition promote :: "int \<Rightarrow> int list \<Rightarrow> state \<Rightarrow> unit result \<times> state" where
  "promote d aliveDbs s =
     (let s1 = modify d (\<lambda>x. x\<lparr>role := Master, db_term := globalTerm s\<rparr>)
                 (s\<lparr>coordinator := Some d\<rparr>)
      in case updateOne d (globalTerm s1) True s1 of
           (Threw, s2) \<Rightarrow> (Threw, s2)
         | (Returned _, s2) \<Rightarrow> demote_others aliveDbs d s2)"

fun elect_loop :: "int list \<Rightarrow> int list \<Rightarrow> state \<Rightarrow> unit result \<times> state" where
  "elect_loop [] aliveDbs s = (Returned (), s\<lparr>coordinator := None\<rparr>)"
| "elect_loop (d # cands) aliveDbs s =
     (case canBecomeMaster d s of
        (Threw, s1) \<Rightarrow> (Threw, s1)
      | (Returned True, s1) \<Rightarrow> promote d aliveDbs s1
      | (Returned False, s1) \<Rightarrow> elect_loop cands aliveDbs s1)"

definition electCoordinator :: "state \<Rightarrow> unit result \<times> state" where
  "electCoordinator s =
     (let s0 = s\<lparr>globalTerm := globalTerm s + 1\<rparr>;
          aliveDbs = map db_id (sort_key (\<lambda>x. - db_id x) (filter alive (databases s0)))
      in elect_loop aliveDbs aliveDbs s0)"

section \<open>Health check: \<^verbatim>\<open>connectDBs\<close>\<close>

text \<open>
  \<^verbatim>\<open>db.connection = await mongoose.createConnection(db.uri); await waitForConnection(db.connection)\<close>
\<close>

definition open_connection :: "int \<Rightarrow> state \<Rightarrow> unit result \<times> state" where
  "open_connection i s =
     (case await s of
        (False, s1) \<Rightarrow> (Threw, s1)
      | (True, s1) \<Rightarrow>
          (case await (modify i (\<lambda>x. x\<lparr>connection := True\<rparr>) s1) of
             (False, s2) \<Rightarrow> (Threw, s2)
           | (True, s2) \<Rightarrow> (Returned (), s2)))"

text \<open>
  The common start of the two branches that build the models: connect, set
  \<^verbatim>\<open>models[db.id]\<close>, make the test query on the metadata and set \<^verbatim>\<open>db.alive = true\<close>.
\<close>

definition probe :: "int \<Rightarrow> state \<Rightarrow> unit result \<times> state" where
  "probe i s =
     (case open_connection i s of
        (Threw, s1) \<Rightarrow> (Threw, s1)
      | (Returned _, s1) \<Rightarrow>
          (case await (s1\<lparr>models := insert i (models s1)\<rparr>) of
             (False, s2) \<Rightarrow> (Threw, s2)
           | (True, s2) \<Rightarrow> (Returned (), modify i (\<lambda>x. x\<lparr>alive := True\<rparr>) s2)))"

text \<open>The two \<^verbatim>\<open>catch\<close> blocks: the one of a node that was not alive keeps the role.\<close>

definition catch_rejoin :: "int \<Rightarrow> state \<Rightarrow> state" where
  "catch_rejoin i s = modify i (\<lambda>x. x\<lparr>alive := False, connection := False\<rparr>) s"

definition catch_connect :: "int \<Rightarrow> state \<Rightarrow> state" where
  "catch_connect i s =
     modify i (\<lambda>x. x\<lparr>alive := False, connection := False, role := Unknown\<rparr>) s"

text \<open>A master exists and the node is not alive: reconnect and synchronise from it.\<close>

definition rejoin :: "int \<Rightarrow> int \<Rightarrow> state \<Rightarrow> state" where
  "rejoin i m s =
     (case probe i s of
        (Threw, s1) \<Rightarrow> catch_rejoin i s1
      | (Returned _, s1) \<Rightarrow>
          (case syncDataFromMaster i m s1 of
             (Threw, s2) \<Rightarrow> catch_rejoin i s2
           | (Returned _, s2) \<Rightarrow> s2))"

text \<open>A master exists and the node is alive: reconnect only.\<close>

definition recheck :: "int \<Rightarrow> state \<Rightarrow> state" where
  "recheck i s =
     (case open_connection i s of
        (Threw, s1) \<Rightarrow> catch_connect i s1
      | (Returned _, s1) \<Rightarrow> s1)"

text \<open>No master exists: connect, and read the term of the node, creating it as 0.\<close>

definition reload :: "int \<Rightarrow> state \<Rightarrow> state" where
  "reload i s =
     (case probe i s of
        (Threw, s1) \<Rightarrow> catch_connect i s1
      | (Returned _, s1) \<Rightarrow>
          (case await s1 of
             (False, s2) \<Rightarrow> catch_connect i s2
           | (True, s2) \<Rightarrow>
               (case metadata (stores s2 i) of
                  Some t \<Rightarrow> modify i (\<lambda>x. x\<lparr>db_term := t\<rparr>) s2
                | None \<Rightarrow>
                    (case await s2 of
                       (False, s3) \<Rightarrow> catch_connect i s3
                     | (True, s3) \<Rightarrow>
                         modify i (\<lambda>x. x\<lparr>db_term := 0\<rparr>) (set_metadata i (Some 0) s3)))))"

definition connectDBs :: "state \<Rightarrow> state" where
  "connectDBs s =
     (case find (\<lambda>x. role x = Master) (databases s) of
        Some master \<Rightarrow>
          fold (\<lambda>i t. if \<not> alive_of t i then rejoin i (db_id master) t else recheck i t)
            (map db_id (databases s)) s
      | None \<Rightarrow> fold reload (map db_id (databases s)) s)"

section \<open>The coordination loop: \<^verbatim>\<open>monitor\<close>\<close>

definition coordinator_down :: "state \<Rightarrow> bool" where
  "coordinator_down s = (case coordinator s of None \<Rightarrow> True | Some c \<Rightarrow> \<not> alive_of s c)"

definition monitor_start :: "state \<Rightarrow> unit result \<times> state" where
  "monitor_start s = electCoordinator (connectDBs s)"

definition monitor_tick :: "state \<Rightarrow> unit result \<times> state" where
  "monitor_tick s =
     (let s1 = connectDBs s
      in if coordinator_down s1 then electCoordinator s1 else (Returned (), s1))"

section \<open>The request handlers\<close>

datatype response =
    DataRequired
  | NoCoordinator
  | Failed
  | NotFound
  | Written int int
  | Updated doc
  | ReadOk role int "(string \<times> nat) list"

text \<open>
  The handlers are asynchronous: while one of them waits for a storage call, the
  coordination loop or another handler can run. A schedule says what runs during the
  awaited calls of one handler, in their order: the first entry during the first call, and
  so on; with the empty schedule nothing runs in between. A call that succeeds has its
  effect on the storage before the others run; the handler goes on after them, with the
  registry and the variable \<^verbatim>\<open>coordinator\<close> as they then are. An entry is a whole run (a
  tick of the coordination loop, say) that the awaited call outlasts; runs that are cut by
  the handler in their own awaited calls are further behaviours of the program that the
  schedules do not describe.
\<close>

type_synonym schedule = "(state \<Rightarrow> state) list"

definition meanwhile :: "schedule \<Rightarrow> state \<Rightarrow> state" where
  "meanwhile sched s = (case sched of [] \<Rightarrow> s | f # fs \<Rightarrow> f s)"

text \<open>
  The loop over \<^verbatim>\<open>slaves\<close> of \<^verbatim>\<open>POST /api/write\<close>: the array was filled before the loop,
  \<^verbatim>\<open>models[slave.id]\<close> is read in each round, and the \<^verbatim>\<open>catch\<close> of a round runs when the
  awaited \<^verbatim>\<open>save\<close> has rejected.
\<close>

fun propagate_write :: "schedule \<Rightarrow> int list \<Rightarrow> doc \<Rightarrow> state \<Rightarrow> state" where
  "propagate_write sched [] savedDoc s = s"
| "propagate_write sched (slave # slaves) savedDoc s =
     (if slave \<in> models s then
        (case await s of
           (False, s1) \<Rightarrow>
             propagate_write (tl sched) slaves savedDoc
               (modify slave (\<lambda>x. x\<lparr>alive := False\<rparr>) (meanwhile sched s1))
         | (True, s1) \<Rightarrow>
             propagate_write (tl sched) slaves savedDoc
               (meanwhile sched (set_tests slave (tests (stores s1 slave) @ [savedDoc]) s1)))
      else propagate_write sched slaves savedDoc s)"

text \<open>
  \<^verbatim>\<open>POST /api/write\<close> with the body field \<open>dat\<close> at the time \<open>now\<close>. The empty string stands
  for every payload that \<^verbatim>\<open>!data\<close> rejects (absent, null, empty, 0, false). \<^verbatim>\<open>MasterModel\<close> is
  taken from the coordinator before the \<^verbatim>\<open>save\<close>; the filter of the slaves and the answer
  read the variable \<^verbatim>\<open>coordinator\<close> again after it, and \<^verbatim>\<open>coordinator.id\<close> of null is a
  TypeError that the outer \<^verbatim>\<open>catch\<close> answers with 500.
\<close>

definition api_write :: "schedule \<Rightarrow> string \<Rightarrow> nat \<Rightarrow> state \<Rightarrow> response \<times> state" where
  "api_write sched dat now s =
     (if dat = [] then (DataRequired, s)
      else case coordinator s of
        None \<Rightarrow> (NoCoordinator, s)
      | Some c \<Rightarrow>
          (if \<not> alive_of s c then (NoCoordinator, s)
           else if c \<notin> models s then (Failed, s)
           else
             (let savedDoc = \<lparr>oid = next_oid s, data = dat, createdAt = now\<rparr> in
              case await (s\<lparr>next_oid := Suc (next_oid s)\<rparr>) of
                (False, s1) \<Rightarrow> (Failed, meanwhile sched s1)
              | (True, s1) \<Rightarrow>
                  (let s2 = meanwhile sched (set_tests c (tests (stores s1 c) @ [savedDoc]) s1)
                   in case coordinator s2 of
                        None \<Rightarrow> (Failed, s2)
                      | Some c' \<Rightarrow>
                          (let slaves = map db_id
                                 (filter (\<lambda>x. alive x \<and> db_id x \<noteq> c') (databases s2));
                               s3 = propagate_write (tl sched) slaves savedDoc s2
                           in case coordinator s3 of
                                None \<Rightarrow> (Failed, s3)
                              | Some c'' \<Rightarrow> (Written c'' (term_of s3 c''), s3))))))"

fun update_first :: "nat \<Rightarrow> string \<Rightarrow> doc list \<Rightarrow> doc list" where
  "update_first k dat [] = []"
| "update_first k dat (x # xs) =
     (if oid x = k then x\<lparr>data := dat\<rparr> # xs else x # update_first k dat xs)"

text \<open>
  \<^verbatim>\<open>Test.findByIdAndUpdate(id, { data }, { new: true })\<close> on the node \<open>i\<close>, awaited: the
  updated document, or null when no document has the id.
\<close>

definition findByIdAndUpdate ::
  "schedule \<Rightarrow> int \<Rightarrow> nat \<Rightarrow> string \<Rightarrow> state \<Rightarrow> doc option result \<times> state" where
  "findByIdAndUpdate sched i k dat s =
     (case await s of
        (False, s1) \<Rightarrow> (Threw, meanwhile sched s1)
      | (True, s1) \<Rightarrow>
          (case find (\<lambda>x. oid x = k) (tests (stores s1 i)) of
             None \<Rightarrow> (Returned None, meanwhile sched s1)
           | Some x \<Rightarrow>
               (Returned (Some (x\<lparr>data := dat\<rparr>)),
                meanwhile sched (set_tests i (update_first k dat (tests (stores s1 i))) s1))))"

fun propagate_update :: "schedule \<Rightarrow> int list \<Rightarrow> nat \<Rightarrow> string \<Rightarrow> state \<Rightarrow> state" where
  "propagate_update sched [] k dat s = s"
| "propagate_update sched (slave # slaves) k dat s =
     (if slave \<in> models s then
        (case findByIdAndUpdate sched slave k dat s of
           (Threw, s1) \<Rightarrow>
             propagate_update (tl sched) slaves k dat
               (modify slave (\<lambda>x. x\<lparr>alive := False\<rparr>) s1)
         | (Returned _, s1) \<Rightarrow> propagate_update (tl sched) slaves k dat s1)
      else propagate_update sched slaves k dat s)"

text \<open>
  \<^verbatim>\<open>PUT /api/update/:id\<close>. The path parameter is \<open>Some k\<close> when it is an object id and
  \<open>None\<close> when it is not, in which case the query on the master throws a CastError. As in
  the write, the filter of the slaves reads \<^verbatim>\<open>coordinator\<close> again after the awaited call.
\<close>

definition api_update :: "schedule \<Rightarrow> nat option \<Rightarrow> string \<Rightarrow> state \<Rightarrow> response \<times> state" where
  "api_update sched ident dat s =
     (if dat = [] then (DataRequired, s)
      else case coordinator s of
        None \<Rightarrow> (NoCoordinator, s)
      | Some c \<Rightarrow>
          (if \<not> alive_of s c then (NoCoordinator, s)
           else if c \<notin> models s then (Failed, s)
           else case ident of
             None \<Rightarrow> (Failed, s)
           | Some k \<Rightarrow>
               (case findByIdAndUpdate sched c k dat s of
                  (Threw, s1) \<Rightarrow> (Failed, s1)
                | (Returned None, s1) \<Rightarrow> (NotFound, s1)
                | (Returned (Some updatedDoc), s1) \<Rightarrow>
                    (case coordinator s1 of
                       None \<Rightarrow> (Failed, s1)
                     | Some c' \<Rightarrow>
                         (let slaves = map db_id
                                (filter (\<lambda>x. alive x \<and> db_id x \<noteq> c') (databases s1))
                          in (Updated updatedDoc,
                              propagate_update (tl sched) slaves k dat s1))))))"

text \<open>\<^verbatim>\<open>GET /api/read/:dbId\<close>, with \<open>dbId\<close> the parsed path parameter.\<close>

definition api_read :: "int \<Rightarrow> state \<Rightarrow> response \<times> state" where
  "api_read dbId s =
     (case lookup dbId (databases s) of
        None \<Rightarrow> (NotFound, s)
      | Some d \<Rightarrow>
          (if \<not> alive d then (NotFound, s)
           else if db_id d \<notin> models s then (Failed, s)
           else case await s of
             (False, s1) \<Rightarrow> (Failed, s1)
           | (True, s1) \<Rightarrow>
               (ReadOk (role d) (db_term d)
                  (map (\<lambda>x. (data x, createdAt x)) (take 10 (tests (stores s1 (db_id d))))),
                s1)))"

section \<open>Sequential runs\<close>

text \<open>
  The process starts with every descriptor \<^verbatim>\<open>role: "unknown", alive: false,
  connection: null, term: 0\<close>, no coordinator, \<^verbatim>\<open>globalTerm = 0\<close> and no models, against
  any storage.
\<close>

definition initial :: "int list \<Rightarrow> (int \<Rightarrow> store) \<Rightarrow> bool list \<Rightarrow> nat \<Rightarrow> state" where
  "initial ids st os n =
     \<lparr>databases = map (\<lambda>i. \<lparr>db_id = i, role = Unknown, alive = False, connection = False,
                            db_term = 0\<rparr>) ids,
      coordinator = None, globalTerm = 0, models = {}, stores = st, outcomes = os,
      next_oid = n\<rparr>"

text \<open>
  The states that the process is in between runs when every run is finished before the
  next one starts, so that no handler waits while something else runs: \<^verbatim>\<open>connectDBs\<close> at
  any time, \<^verbatim>\<open>electCoordinator\<close> when no alive coordinator is tracked (which is the case at
  the start and is the test of the loop), the handlers with the empty schedule, and the
  world, which decides what fails next and may change the storage. The program itself
  is not restricted to these runs.
\<close>

inductive sequential :: "state \<Rightarrow> bool" where
  start: "distinct ids \<Longrightarrow> sequential (initial ids st os n)"
| connect: "sequential s \<Longrightarrow> sequential (connectDBs s)"
| elect: "sequential s \<Longrightarrow> coordinator_down s \<Longrightarrow> sequential (snd (electCoordinator s))"
| write_request: "sequential s \<Longrightarrow> sequential (snd (api_write [] dat now s))"
| update_request: "sequential s \<Longrightarrow> sequential (snd (api_update [] ident dat s))"
| read_request: "sequential s \<Longrightarrow> sequential (snd (api_read dbId s))"
| world: "sequential s \<Longrightarrow> sequential (s\<lparr>stores := st, outcomes := os\<rparr>)"

text \<open>
  Whether the awaited call number \<open>k\<close> (from 0) made from a state with the outcomes \<open>os\<close>
  succeeds.
\<close>

definition delivered :: "bool list \<Rightarrow> nat \<Rightarrow> bool" where
  "delivered os k = (length os \<le> k \<or> os ! k)"

text \<open>
  Whether the \<^verbatim>\<open>try\<close> block of \<^verbatim>\<open>connectDBs\<close> for the node \<open>i\<close>, when no master exists,
  runs to its end.
\<close>

definition reloaded :: "int \<Rightarrow> state \<Rightarrow> bool" where
  "reloaded i s \<longleftrightarrow> fst (probe i s) \<noteq> Threw \<and> fst (await (snd (probe i s)))
     \<and> (metadata (stores s i) \<noteq> None \<or> fst (await (snd (await (snd (probe i s))))))"

text \<open>
  The invariant of the registry: the ids are distinct, and a node with the role of master
  is alive and is the tracked coordinator.
\<close>

definition settled :: "state \<Rightarrow> bool" where
  "settled s \<longleftrightarrow> distinct (map db_id (databases s))
     \<and> (\<forall>i. role_of s i = Master \<longrightarrow> alive_of s i \<and> coordinator s = Some i)"

section \<open>Concrete scenarios\<close>

text \<open>Empty storage on every node, and storage that already holds the term 5.\<close>

definition empty_stores :: "int \<Rightarrow> store" where
  "empty_stores = (\<lambda>i. \<lparr>tests = [], metadata = None\<rparr>)"

definition old_stores :: "int \<Rightarrow> store" where
  "old_stores = (\<lambda>i. \<lparr>tests = [], metadata = Some 5\<rparr>)"

text \<open>
  The moment at which \<^verbatim>\<open>connectDBs\<close> synchronises the node 1 from the master 2. Both
  nodes got the record 0 while the node 1 was alive, at term 1; since then the node 1 was
  down, the master came to term 3 and got the record 1.
\<close>

definition rejoin_state :: state where
  "rejoin_state =
     \<lparr>databases =
        [\<lparr>db_id = 2, role = Master, alive = True, connection = True, db_term = 3\<rparr>,
         \<lparr>db_id = 1, role = Slave, alive = True, connection = True, db_term = 1\<rparr>],
      coordinator = Some 2, globalTerm = 3, models = {1, 2},
      stores = (\<lambda>i. if i = 2
                     then \<lparr>tests = [\<lparr>oid = 0, data = ''old'', createdAt = 1\<rparr>,
                                    \<lparr>oid = 1, data = ''a'', createdAt = 5\<rparr>],
                           metadata = Some 3\<rparr>
                     else \<lparr>tests = [\<lparr>oid = 0, data = ''old'', createdAt = 1\<rparr>],
                           metadata = Some 1\<rparr>),
      outcomes = [], next_oid = 2\<rparr>"

text \<open>A settled cluster whose master holds twelve documents.\<close>

definition twelve_docs :: "doc list" where
  "twelve_docs = map (\<lambda>n. \<lparr>oid = n, data = ''x'', createdAt = n\<rparr>) [0 ..< 12]"

definition read_state :: state where
  "read_state =
     \<lparr>databases =
        [\<lparr>db_id = 2, role = Master, alive = True, connection = True, db_term = 1\<rparr>,
         \<lparr>db_id = 1, role = Slave, alive = True, connection = True, db_term = 1\<rparr>],
      coordinator = Some 2, globalTerm = 1, models = {1, 2},
      stores = (\<lambda>i. \<lparr>tests = twelve_docs, metadata = Some 1\<rparr>),
      outcomes = [], next_oid = 12\<rparr>"

text \<open>
  A settled cluster of three nodes that all hold the record with the object id 0; of the
  next awaited calls the first and the third succeed and the second fails.
\<close>

definition three_nodes :: state where
  "three_nodes =
     \<lparr>databases =
        [\<lparr>db_id = 3, role = Master, alive = True, connection = True, db_term = 1\<rparr>,
         \<lparr>db_id = 2, role = Slave, alive = True, connection = True, db_term = 1\<rparr>,
         \<lparr>db_id = 1, role = Slave, alive = True, connection = True, db_term = 1\<rparr>],
      coordinator = Some 3, globalTerm = 1, models = {1, 2, 3},
      stores = (\<lambda>i. \<lparr>tests = [\<lparr>oid = 0, data = ''r'', createdAt = 4\<rparr>], metadata = Some 1\<rparr>),
      outcomes = [True, False, True], next_oid = 1\<rparr>"

text \<open>
  A state in which the tracked coordinator 3 is not alive and the node 2 is behind: it is
  at term 1 and holds no documents, the others are at term 2.
\<close>

definition stale_state :: state where
  "stale_state =
     \<lparr>databases =
        [\<lparr>db_id = 3, role = Unknown, alive = False, connection = False, db_term = 2\<rparr>,
         \<lparr>db_id = 2, role = Unknown, alive = True, connection = True, db_term = 1\<rparr>,
         \<lparr>db_id = 1, role = Slave, alive = True, connection = True, db_term = 2\<rparr>],
      coordinator = Some 3, globalTerm = 2, models = {1, 2, 3},
      stores = (\<lambda>i. if i = 2 then \<lparr>tests = [], metadata = Some 1\<rparr>
                     else \<lparr>tests = [\<lparr>oid = 0, data = ''a'', createdAt = 5\<rparr>],
                           metadata = Some 2\<rparr>),
      outcomes = [], next_oid = 1\<rparr>"

text \<open>
  The start of the process against storage in which the node 1 holds a document; the
  thirteenth awaited call fails, which is the read of the master's documents when the
  node 1 is synchronised after the first election.
\<close>

definition leftover_stores :: "int \<Rightarrow> store" where
  "leftover_stores =
     (\<lambda>i. if i = 1 then \<lparr>tests = [\<lparr>oid = 0, data = ''x'', createdAt = 1\<rparr>], metadata = None\<rparr>
          else \<lparr>tests = [], metadata = None\<rparr>)"

definition failing_start :: state where
  "failing_start =
     initial [2, 1] leftover_stores
       [True, True, True, True, True, True, True, True, True, True, True, True, False] 1"

text \<open>
  The same cluster before the node 1 is reconnected by \<^verbatim>\<open>connectDBs\<close>: the connection is
  made, the documents of the master are read and those of the node deleted, and the bulk
  insert fails.
\<close>

definition down_state :: state where
  "down_state =
     \<lparr>databases =
        [\<lparr>db_id = 2, role = Master, alive = True, connection = True, db_term = 3\<rparr>,
         \<lparr>db_id = 1, role = Slave, alive = False, connection = False, db_term = 1\<rparr>],
      coordinator = Some 2, globalTerm = 3, models = {1, 2},
      stores = (\<lambda>i. if i = 2
                     then \<lparr>tests = [\<lparr>oid = 0, data = ''old'', createdAt = 1\<rparr>,
                                    \<lparr>oid = 1, data = ''a'', createdAt = 5\<rparr>],
                           metadata = Some 3\<rparr>
                     else \<lparr>tests = [\<lparr>oid = 0, data = ''old'', createdAt = 1\<rparr>],
                           metadata = Some 1\<rparr>),
      outcomes = [True, True, True, True, True, False], next_oid = 2\<rparr>"

text \<open>
  The process after its health check at the start, against storage in which only the
  node 1 has a term document, with the term 4.
\<close>

definition uneven_stores :: "int \<Rightarrow> store" where
  "uneven_stores =
     (\<lambda>i. if i = 1 then \<lparr>tests = [], metadata = Some 4\<rparr> else \<lparr>tests = [], metadata = None\<rparr>)"

definition uneven_start :: state where
  "uneven_start = connectDBs (initial [2, 1] uneven_stores [] 0)"

text \<open>
  The start of the process with two reachable nodes and empty storage, and the tick after
  it in which the connection to the master 2 fails.
\<close>

definition started :: state where
  "started = snd (monitor_start (initial [2, 1] empty_stores [] 0))"

definition failed_over :: state where
  "failed_over = snd (monitor_tick (started\<lparr>stores := stores started, outcomes := [False]\<rparr>))"

text \<open>
  A write during which the master fails over. The cluster has started, with the node 2 as
  master. The save on the master succeeds, and while the handler waits for it a tick of the
  coordination loop runs in which the connection to the node 2 fails (the second awaited
  call), so that the node 1 is elected.
\<close>

definition lost_write :: "response \<times> state" where
  "lost_write =
     api_write [\<lambda>s. snd (monitor_tick s)] ''v'' 7 (started\<lparr>outcomes := [True, False]\<rparr>)"

text \<open>
  A write whose save on the slave fails late. Nothing runs during the save on the master 2.
  The save on the node 1 is rejected (the second awaited call), and before the handler is
  resumed a tick of the coordination loop runs in which the connection to the node 2 fails
  (the third awaited call), so that the node 1 is elected; then the \<^verbatim>\<open>catch\<close> of the handler
  runs. In the next tick the node 2 is reconnected and synchronised (six awaited calls) and
  the connection to the node 1 fails; in the tick after that every call succeeds.
\<close>

definition late_catch :: "response \<times> state" where
  "late_catch =
     api_write [\<lambda>s. s, \<lambda>s. snd (monitor_tick s)] ''v'' 7
       (started\<lparr>outcomes := [True, False, False]\<rparr>)"

definition second_failover :: state where
  "second_failover =
     snd (monitor_tick
       ((snd late_catch)\<lparr>outcomes := [True, True, True, True, True, True, False]\<rparr>))"

definition two_masters :: state where
  "two_masters = snd (monitor_tick second_failover)"

text \<open>
  The process after its health check at the start, against storage in which each node
  holds a document of its own.
\<close>

definition stocked_stores :: "int \<Rightarrow> store" where
  "stocked_stores =
     (\<lambda>i. if i = 2 then \<lparr>tests = [\<lparr>oid = 0, data = ''x'', createdAt = 1\<rparr>], metadata = None\<rparr>
          else \<lparr>tests = [\<lparr>oid = 1, data = ''y'', createdAt = 2\<rparr>], metadata = None\<rparr>)"

definition stocked_start :: state where
  "stocked_start = connectDBs (initial [2, 1] stocked_stores [] 2)"

section \<open>Basic facts about the state operations\<close>

lemma meanwhile_simps [simp]:
  "meanwhile [] s = s"
  "meanwhile (f # fs) s = f s"
  by (simp_all add: meanwhile_def)

lemma await_fields [simp]:
  "databases (snd (await s)) = databases s"
  "coordinator (snd (await s)) = coordinator s"
  "globalTerm (snd (await s)) = globalTerm s"
  "models (snd (await s)) = models s"
  "stores (snd (await s)) = stores s"
  "next_oid (snd (await s)) = next_oid s"
  by (simp_all add: await_def split: list.splits)

lemma lookup_map_upd:
  assumes "\<And>x. db_id (f x) = db_id x"
  shows "lookup i (map (\<lambda>d. if db_id d = j then f d else d) dbs)
         = (if i = j then map_option f (lookup i dbs) else lookup i dbs)"
  using assms by (induction dbs) (auto simp: lookup_def)

lemma ids_modify:
  assumes "\<And>x. db_id (f x) = db_id x"
  shows "map db_id (databases (modify j f s)) = map db_id (databases s)"
  using assms by (simp add: modify_def comp_def cong: map_cong)

lemma modify_fields [simp]:
  "coordinator (modify j f s) = coordinator s"
  "globalTerm (modify j f s) = globalTerm s"
  "models (modify j f s) = models s"
  "stores (modify j f s) = stores s"
  "next_oid (modify j f s) = next_oid s"
  "outcomes (modify j f s) = outcomes s"
  by (simp_all add: modify_def)

lemma set_tests_fields [simp]:
  "databases (set_tests i ds s) = databases s"
  "coordinator (set_tests i ds s) = coordinator s"
  "globalTerm (set_tests i ds s) = globalTerm s"
  "models (set_tests i ds s) = models s"
  "next_oid (set_tests i ds s) = next_oid s"
  "outcomes (set_tests i ds s) = outcomes s"
  "tests (stores (set_tests i ds s) j) = (if j = i then ds else tests (stores s j))"
  "metadata (stores (set_tests i ds s) j) = metadata (stores s j)"
  by (simp_all add: set_tests_def)

lemma set_metadata_fields [simp]:
  "databases (set_metadata i m s) = databases s"
  "coordinator (set_metadata i m s) = coordinator s"
  "globalTerm (set_metadata i m s) = globalTerm s"
  "models (set_metadata i m s) = models s"
  "next_oid (set_metadata i m s) = next_oid s"
  "outcomes (set_metadata i m s) = outcomes s"
  "tests (stores (set_metadata i m s) j) = tests (stores s j)"
  "metadata (stores (set_metadata i m s) j) = (if j = i then m else metadata (stores s j))"
  by (simp_all add: set_metadata_def)

lemma views_modify:
  assumes "\<And>x. db_id (f x) = db_id x"
  shows "term_of (modify j f s) i = (if i = j then (case lookup i (databases s) of Some d \<Rightarrow> db_term (f d) | None \<Rightarrow> 0) else term_of s i)"
    and "role_of (modify j f s) i = (if i = j then (case lookup i (databases s) of Some d \<Rightarrow> role (f d) | None \<Rightarrow> Unknown) else role_of s i)"
    and "alive_of (modify j f s) i = (if i = j then (case lookup i (databases s) of Some d \<Rightarrow> alive (f d) | None \<Rightarrow> False) else alive_of s i)"
  using assms by (auto simp: term_of_def role_of_def alive_of_def modify_def lookup_map_upd split: option.splits)

lemma views_state_upd [simp]:
  "term_of (s\<lparr>outcomes := os\<rparr>) = term_of s"
  "role_of (s\<lparr>outcomes := os\<rparr>) = role_of s"
  "alive_of (s\<lparr>outcomes := os\<rparr>) = alive_of s"
  "term_of (s\<lparr>next_oid := n\<rparr>) = term_of s"
  "role_of (s\<lparr>next_oid := n\<rparr>) = role_of s"
  "alive_of (s\<lparr>next_oid := n\<rparr>) = alive_of s"
  "term_of (s\<lparr>stores := st\<rparr>) = term_of s"
  "role_of (s\<lparr>stores := st\<rparr>) = role_of s"
  "alive_of (s\<lparr>stores := st\<rparr>) = alive_of s"
  "term_of (s\<lparr>coordinator := c\<rparr>) = term_of s"
  "role_of (s\<lparr>coordinator := c\<rparr>) = role_of s"
  "alive_of (s\<lparr>coordinator := c\<rparr>) = alive_of s"
  "term_of (s\<lparr>globalTerm := g\<rparr>) = term_of s"
  "role_of (s\<lparr>globalTerm := g\<rparr>) = role_of s"
  "alive_of (s\<lparr>globalTerm := g\<rparr>) = alive_of s"
  "term_of (s\<lparr>models := ms\<rparr>) = term_of s"
  "role_of (s\<lparr>models := ms\<rparr>) = role_of s"
  "alive_of (s\<lparr>models := ms\<rparr>) = alive_of s"
  by (simp_all add: term_of_def role_of_def alive_of_def fun_eq_iff)

lemma views_set [simp]:
  "term_of (set_tests i ds s) = term_of s"
  "role_of (set_tests i ds s) = role_of s"
  "alive_of (set_tests i ds s) = alive_of s"
  "term_of (set_metadata i m s) = term_of s"
  "role_of (set_metadata i m s) = role_of s"
  "alive_of (set_metadata i m s) = alive_of s"
  by (simp_all add: set_tests_def set_metadata_def)

lemma views_await [simp]:
  "term_of (snd (await s)) = term_of s"
  "role_of (snd (await s)) = role_of s"
  "alive_of (snd (await s)) = alive_of s"
  by (simp_all add: term_of_def role_of_def alive_of_def fun_eq_iff)

lemma term_of_set_term:
  "term_of (modify d (\<lambda>x. x\<lparr>db_term := t\<rparr>) s) i
     = (if i = d \<and> lookup d (databases s) \<noteq> None then t else term_of s i)"
  by (auto simp: views_modify split: option.splits) (simp add: term_of_def)

lemma views_set_term [simp]:
  "role_of (modify d (\<lambda>x. x\<lparr>db_term := t\<rparr>) s) = role_of s"
  "alive_of (modify d (\<lambda>x. x\<lparr>db_term := t\<rparr>) s) = alive_of s"
  "map db_id (databases (modify d (\<lambda>x. x\<lparr>db_term := t\<rparr>) s)) = map db_id (databases s)"
    apply (simp_all add: fun_eq_iff views_modify ids_modify)
   apply (simp_all add: role_of_def alive_of_def split: option.splits)
  done

lemmas unfold_cases = case_prod_beta bool.case_eq_if Let_def

lemma await_outcomes: "outcomes (snd (await s)) = tl (outcomes s)"
  by (simp add: await_def split: list.splits)

subsection \<open>Storage calls\<close>

lemma updateOne_fields [simp]:
  "databases (snd (updateOne i t u s)) = databases s"
  "coordinator (snd (updateOne i t u s)) = coordinator s"
  "globalTerm (snd (updateOne i t u s)) = globalTerm s"
  "models (snd (updateOne i t u s)) = models s"
  "next_oid (snd (updateOne i t u s)) = next_oid s"
  "tests (stores (snd (updateOne i t u s)) j) = tests (stores s j)"
  "j \<noteq> i \<Longrightarrow> metadata (stores (snd (updateOne i t u s)) j) = metadata (stores s j)"
  by (simp_all add: updateOne_def unfold_cases)

lemma updateOne_views [simp]:
  "term_of (snd (updateOne i t u s)) = term_of s"
  "role_of (snd (updateOne i t u s)) = role_of s"
  "alive_of (snd (updateOne i t u s)) = alive_of s"
  by (simp_all add: term_of_def role_of_def alive_of_def fun_eq_iff)

lemma updateOne_metadata:
  "metadata (stores (snd (updateOne i t u s)) i) =
     (if fst (updateOne i t u s) = Threw \<or> (metadata (stores s i) = None \<and> \<not> u)
      then metadata (stores s i) else Some t)"
  by (simp add: updateOne_def unfold_cases)


lemma insertMany_fields [simp]:
  "databases (snd (insertMany i ds s)) = databases s"
  "coordinator (snd (insertMany i ds s)) = coordinator s"
  "globalTerm (snd (insertMany i ds s)) = globalTerm s"
  "models (snd (insertMany i ds s)) = models s"
  "metadata (stores (snd (insertMany i ds s)) j) = metadata (stores s j)"
  "j \<noteq> i \<Longrightarrow> tests (stores (snd (insertMany i ds s)) j) = tests (stores s j)"
  by (simp_all add: insertMany_def unfold_cases)

lemma insertMany_views [simp]:
  "term_of (snd (insertMany i ds s)) = term_of s"
  "role_of (snd (insertMany i ds s)) = role_of s"
  "alive_of (snd (insertMany i ds s)) = alive_of s"
  by (simp_all add: term_of_def role_of_def alive_of_def fun_eq_iff)

lemma insertMany_tests:
  "tests (stores (snd (insertMany i ds s)) i) =
     (if fst (insertMany i ds s) = Threw then tests (stores s i)
      else tests (stores s i) @ fresh_copies (next_oid s) ds)"
  by (simp add: insertMany_def unfold_cases)

subsection \<open>Synchronisation\<close>

lemma sync_fields [simp]:
  "map db_id (databases (snd (syncDataFromMaster d m s))) = map db_id (databases s)"
  "coordinator (snd (syncDataFromMaster d m s)) = coordinator s"
  "globalTerm (snd (syncDataFromMaster d m s)) = globalTerm s"
  "models (snd (syncDataFromMaster d m s)) = models s"
  "role_of (snd (syncDataFromMaster d m s)) = role_of s"
  "alive_of (snd (syncDataFromMaster d m s)) = alive_of s"
  by (simp_all add: syncDataFromMaster_def unfold_cases split: result.split)

lemma sync_others [simp]:
  "j \<noteq> d \<Longrightarrow> tests (stores (snd (syncDataFromMaster d m s)) j) = tests (stores s j)"
  "j \<noteq> d \<Longrightarrow> metadata (stores (snd (syncDataFromMaster d m s)) j) = metadata (stores s j)"
  "j \<noteq> d \<Longrightarrow> term_of (snd (syncDataFromMaster d m s)) j = term_of s j"
  by (simp_all add: syncDataFromMaster_def unfold_cases term_of_set_term split: result.split)

lemma term_of_absent: "lookup d (databases s) = None \<Longrightarrow> term_of s d = 0"
  by (simp add: term_of_def)

lemma sync_skip:
  "d = m \<or> d \<notin> models s \<or> m \<notin> models s \<Longrightarrow> syncDataFromMaster d m s = (Returned (), s)"
  by (auto simp: syncDataFromMaster_def)

lemma sync_Returned:
  assumes "d \<noteq> m" "d \<in> models s" "m \<in> models s" "fst (syncDataFromMaster d m s) \<noteq> Threw"
    and "lookup d (databases s) \<noteq> None"
  shows "tests (stores (snd (syncDataFromMaster d m s)) d) = fresh_copies (next_oid s) (tests (stores s m))"
    and "term_of (snd (syncDataFromMaster d m s)) d = term_of s m"
    and "metadata (stores (snd (syncDataFromMaster d m s)) d) =
           (if metadata (stores s d) = None then None else Some (term_of s m))"
  using assms
  by (simp_all add: syncDataFromMaster_def unfold_cases term_of_set_term insertMany_tests updateOne_metadata term_of_absent
      split: result.splits if_splits)

lemma sync_Threw:
  assumes "fst (syncDataFromMaster d m s) = Threw"
  shows "metadata (stores (snd (syncDataFromMaster d m s)) d) = metadata (stores s d)"
    and "term_of (snd (syncDataFromMaster d m s)) d \<noteq> term_of s d \<Longrightarrow>
           tests (stores (snd (syncDataFromMaster d m s)) d) = fresh_copies (next_oid s) (tests (stores s m))"
  using assms
  by (simp_all add: syncDataFromMaster_def unfold_cases term_of_set_term insertMany_tests updateOne_metadata term_of_absent
      split: result.splits if_splits)

lemma fresh_copies_content:
  "map (\<lambda>x. (data x, createdAt x)) (fresh_copies n ds) = map (\<lambda>x. (data x, createdAt x)) ds"
  by (induction ds arbitrary: n) simp_all

lemma fresh_copies_oid: "map oid (fresh_copies n ds) = [n ..< n + length ds]"
  by (induction ds arbitrary: n) (simp_all add: upt_rec)

subsection \<open>Propagation of a write and of an update\<close>

lemma views_set_alive [simp]:
  "role_of (modify i (\<lambda>x. x\<lparr>alive := b\<rparr>) s) = role_of s"
  "term_of (modify i (\<lambda>x. x\<lparr>alive := b\<rparr>) s) = term_of s"
  "map db_id (databases (modify i (\<lambda>x. x\<lparr>alive := b\<rparr>) s)) = map db_id (databases s)"
    apply (simp_all add: fun_eq_iff views_modify ids_modify)
   apply (simp_all add: role_of_def term_of_def split: option.splits)
  done

lemma alive_of_set_alive:
  "alive_of (modify i (\<lambda>x. x\<lparr>alive := b\<rparr>) s) j
     = (if j = i \<and> lookup i (databases s) \<noteq> None then b else alive_of s j)"
  by (auto simp: views_modify split: option.splits) (simp add: alive_of_def)

lemma alive_of_absent: "lookup i (databases s) = None \<Longrightarrow> alive_of s i = False"
  by (simp add: alive_of_def)

lemma alive_of_registered: "alive_of s i \<Longrightarrow> lookup i (databases s) \<noteq> None"
  by (auto simp: alive_of_def split: option.splits)

lemma pw_fields [simp]:
  "map db_id (databases (propagate_write [] slaves doc s)) = map db_id (databases s)"
  "coordinator (propagate_write [] slaves doc s) = coordinator s"
  "globalTerm (propagate_write [] slaves doc s) = globalTerm s"
  "models (propagate_write [] slaves doc s) = models s"
  "next_oid (propagate_write [] slaves doc s) = next_oid s"
  "role_of (propagate_write [] slaves doc s) = role_of s"
  "term_of (propagate_write [] slaves doc s) = term_of s"
  "metadata (stores (propagate_write [] slaves doc s) j) = metadata (stores s j)"
  by (induction slaves arbitrary: s; simp add: unfold_cases)+

lemma pw_frame:
  "j \<notin> set slaves \<Longrightarrow> tests (stores (propagate_write [] slaves doc s) j) = tests (stores s j)"
  "j \<notin> set slaves \<Longrightarrow> alive_of (propagate_write [] slaves doc s) j = alive_of s j"
  by (induction slaves arbitrary: s; simp add: unfold_cases alive_of_set_alive)+


lemma fst_await: "fst (await s) = delivered (outcomes s) 0"
  by (simp add: await_def delivered_def split: list.splits)

lemma delivered_tl: "delivered (tl os) k = delivered os (Suc k)"
  by (cases os) (simp_all add: delivered_def)

lemma pw_indexed:
  assumes "distinct slaves" "set slaves \<subseteq> models s" "k < length slaves"
  shows "tests (stores (propagate_write [] slaves doc s) (slaves ! k))
           = (if delivered (outcomes s) k then tests (stores s (slaves ! k)) @ [doc]
              else tests (stores s (slaves ! k)))
       \<and> alive_of (propagate_write [] slaves doc s) (slaves ! k)
           = (delivered (outcomes s) k \<and> alive_of s (slaves ! k))"
  using assms
proof (induction slaves arbitrary: s k)
  case Nil
  then show ?case by simp
next
  case (Cons slave slaves)
  show ?case
  proof (cases k)
    case 0
    with Cons.prems show ?thesis
      by (simp add: unfold_cases pw_frame fst_await alive_of_set_alive alive_of_absent)
  next
    case (Suc n)
    let ?s1 = "if fst (await s)
               then set_tests slave (tests (stores (snd (await s)) slave) @ [doc]) (snd (await s))
               else modify slave (\<lambda>x. x\<lparr>alive := False\<rparr>) (snd (await s))"
    have step: "propagate_write [] (slave # slaves) doc s = propagate_write [] slaves doc ?s1"
      using Cons.prems by (simp add: unfold_cases)
    have n: "n < length slaves" and d: "distinct slaves" and ne: "slaves ! n \<noteq> slave"
      using Cons.prems Suc by auto
    have m: "set slaves \<subseteq> models ?s1"
      using Cons.prems by simp
    have o: "outcomes ?s1 = tl (outcomes s)"
      by (simp add: await_outcomes)
    have t: "tests (stores ?s1 (slaves ! n)) = tests (stores s (slaves ! n))"
      and a: "alive_of ?s1 (slaves ! n) = alive_of s (slaves ! n)"
      using ne by (simp_all add: alive_of_set_alive)
    from Cons.IH [OF d m n] show ?thesis
      unfolding step Suc o t a by (simp add: delivered_tl)
  qed
qed

lemma pw_filter:
  "propagate_write [] slaves doc s = propagate_write [] (filter (\<lambda>i. i \<in> models s) slaves) doc s"
  by (induction slaves arbitrary: s) (simp_all add: unfold_cases)

lemma update_first_absent: "find (\<lambda>x. oid x = k) xs = None \<Longrightarrow> update_first k dat xs = xs"
  by (induction xs) (auto split: if_splits)

lemma fbu_fields [simp]:
  "databases (snd (findByIdAndUpdate [] i k dat s)) = databases s"
  "coordinator (snd (findByIdAndUpdate [] i k dat s)) = coordinator s"
  "globalTerm (snd (findByIdAndUpdate [] i k dat s)) = globalTerm s"
  "models (snd (findByIdAndUpdate [] i k dat s)) = models s"
  "next_oid (snd (findByIdAndUpdate [] i k dat s)) = next_oid s"
  "metadata (stores (snd (findByIdAndUpdate [] i k dat s)) j) = metadata (stores s j)"
  "outcomes (snd (findByIdAndUpdate [] i k dat s)) = tl (outcomes s)"
  by (simp_all add: findByIdAndUpdate_def unfold_cases await_outcomes split: option.split)

lemma fbu_views [simp]:
  "term_of (snd (findByIdAndUpdate [] i k dat s)) = term_of s"
  "role_of (snd (findByIdAndUpdate [] i k dat s)) = role_of s"
  "alive_of (snd (findByIdAndUpdate [] i k dat s)) = alive_of s"
  by (simp_all add: term_of_def role_of_def alive_of_def fun_eq_iff)

lemma fbu_tests:
  "tests (stores (snd (findByIdAndUpdate [] i k dat s)) j)
     = (if j = i \<and> fst (await s) then update_first k dat (tests (stores s j))
        else tests (stores s j))"
  by (simp add: findByIdAndUpdate_def unfold_cases update_first_absent split: option.split)

lemma fbu_result:
  "fst (findByIdAndUpdate [] i k dat s)
     = (if fst (await s)
        then Returned (map_option (\<lambda>x. x\<lparr>data := dat\<rparr>) (find (\<lambda>x. oid x = k) (tests (stores s i))))
        else Threw)"
  by (simp add: findByIdAndUpdate_def unfold_cases split: option.split)

lemma pu_fields [simp]:
  "map db_id (databases (propagate_update [] slaves k dat s)) = map db_id (databases s)"
  "coordinator (propagate_update [] slaves k dat s) = coordinator s"
  "globalTerm (propagate_update [] slaves k dat s) = globalTerm s"
  "models (propagate_update [] slaves k dat s) = models s"
  "next_oid (propagate_update [] slaves k dat s) = next_oid s"
  "role_of (propagate_update [] slaves k dat s) = role_of s"
  "term_of (propagate_update [] slaves k dat s) = term_of s"
  "metadata (stores (propagate_update [] slaves k dat s) j) = metadata (stores s j)"
  by (induction slaves arbitrary: s; simp add: unfold_cases split: result.split)+

lemma pu_frame:
  "j \<notin> set slaves \<Longrightarrow> tests (stores (propagate_update [] slaves k dat s) j) = tests (stores s j)"
  "j \<notin> set slaves \<Longrightarrow> alive_of (propagate_update [] slaves k dat s) j = alive_of s j"
  by (induction slaves arbitrary: s; simp add: unfold_cases alive_of_set_alive fbu_tests split: result.split)+

lemma pu_filter:
  "propagate_update [] slaves k dat s
     = propagate_update [] (filter (\<lambda>i. i \<in> models s) slaves) k dat s"
  by (induction slaves arbitrary: s) (simp_all add: unfold_cases split: result.split)

lemma pu_indexed:
  assumes "distinct slaves" "set slaves \<subseteq> models s" "n < length slaves"
  shows "tests (stores (propagate_update [] slaves k dat s) (slaves ! n))
           = (if delivered (outcomes s) n then update_first k dat (tests (stores s (slaves ! n)))
              else tests (stores s (slaves ! n)))
       \<and> alive_of (propagate_update [] slaves k dat s) (slaves ! n)
           = (delivered (outcomes s) n \<and> alive_of s (slaves ! n))"
  using assms
proof (induction slaves arbitrary: s n)
  case Nil
  then show ?case by simp
next
  case (Cons slave slaves)
  show ?case
  proof (cases n)
    case 0
    with Cons.prems show ?thesis
      by (simp add: unfold_cases pu_frame fst_await alive_of_set_alive alive_of_absent
          fbu_tests fbu_result split: result.split)
  next
    case (Suc n')
    let ?s0 = "snd (findByIdAndUpdate [] slave k dat s)"
    let ?s1 = "if fst (await s) then ?s0 else modify slave (\<lambda>x. x\<lparr>alive := False\<rparr>) ?s0"
    have step: "propagate_update [] (slave # slaves) k dat s = propagate_update [] slaves k dat ?s1"
      using Cons.prems by (simp add: unfold_cases fbu_result split: result.split)
    have n: "n' < length slaves" and d: "distinct slaves" and ne: "slaves ! n' \<noteq> slave"
      using Cons.prems Suc by auto
    have m: "set slaves \<subseteq> models ?s1"
      using Cons.prems by simp
    have o: "outcomes ?s1 = tl (outcomes s)"
      by simp
    have t: "tests (stores ?s1 (slaves ! n')) = tests (stores s (slaves ! n'))"
      and a: "alive_of ?s1 (slaves ! n') = alive_of s (slaves ! n')"
      using ne by (simp_all add: alive_of_set_alive fbu_tests)
    from Cons.IH [OF d m n] show ?thesis
      unfolding step Suc o t a by (simp add: delivered_tl)
  qed
qed

subsection \<open>The handlers on an alive coordinator\<close>

lemma lookup_member:
  "distinct (map db_id dbs) \<Longrightarrow> d \<in> set dbs \<Longrightarrow> lookup (db_id d) dbs = Some d"
  by (induction dbs) (auto simp: lookup_def)

lemma lookup_Some: "lookup i dbs = Some d \<Longrightarrow> d \<in> set dbs \<and> db_id d = i"
  by (induction dbs) (auto simp: lookup_def split: if_splits)

lemma alive_ids:
  assumes "distinct (map db_id (databases s))"
  shows "set (map db_id (filter (\<lambda>x. alive x \<and> P (db_id x)) (databases s)))
         = {i. alive_of s i \<and> P i}"
  using assms
  by (auto simp: alive_of_def lookup_member split: option.splits dest: lookup_Some)

lemma distinct_others:
  "distinct (map db_id dbs) \<Longrightarrow> distinct (filter Q (map db_id (filter P dbs)))"
  by (simp add: distinct_map_filter)





lemma write_success:
  assumes "dat \<noteq> []" "coordinator s = Some c" "alive_of s c" "c \<in> models s"
    "delivered (outcomes s) 0"
  shows "api_write [] dat now s =
     (Written c (term_of s c),
      propagate_write [] (map db_id (filter (\<lambda>x. alive x \<and> db_id x \<noteq> c) (databases s)))
        \<lparr>oid = next_oid s, data = dat, createdAt = now\<rparr>
        (set_tests c (tests (stores s c) @ [\<lparr>oid = next_oid s, data = dat, createdAt = now\<rparr>])
           (s\<lparr>next_oid := Suc (next_oid s), outcomes := tl (outcomes s)\<rparr>)))"
proof -
  have a: "await (s\<lparr>next_oid := Suc (next_oid s)\<rparr>)
             = (True, s\<lparr>next_oid := Suc (next_oid s), outcomes := tl (outcomes s)\<rparr>)"
    using assms(5) by (auto simp: await_def delivered_def split: list.splits)
  show ?thesis
    using assms(1-4) by (simp add: api_write_def a Let_def)
qed

lemma update_success:
  assumes "dat \<noteq> []" "coordinator s = Some c" "alive_of s c" "c \<in> models s"
    "delivered (outcomes s) 0" "find (\<lambda>x. oid x = k) (tests (stores s c)) = Some x"
  shows "api_update [] (Some k) dat s =
     (Updated (x\<lparr>data := dat\<rparr>),
      propagate_update [] (map db_id (filter (\<lambda>x. alive x \<and> db_id x \<noteq> c) (databases s))) k dat
        (set_tests c (update_first k dat (tests (stores s c)))
           (s\<lparr>outcomes := tl (outcomes s)\<rparr>)))"
proof -
  have a: "await s = (True, s\<lparr>outcomes := tl (outcomes s)\<rparr>)"
    using assms(5) by (auto simp: await_def delivered_def split: list.splits)
  show ?thesis
    using assms(1-4,6) by (simp add: api_update_def findByIdAndUpdate_def a Let_def)
qed

lemma others_alive:
  assumes "distinct (map db_id (databases s))"
    and "n < length (filter (\<lambda>i. i \<in> models s) (map db_id (filter (\<lambda>x. alive x \<and> db_id x \<noteq> c) (databases s))))"
  shows "alive_of s (filter (\<lambda>i. i \<in> models s) (map db_id (filter (\<lambda>x. alive x \<and> db_id x \<noteq> c) (databases s))) ! n)"
    and "filter (\<lambda>i. i \<in> models s) (map db_id (filter (\<lambda>x. alive x \<and> db_id x \<noteq> c) (databases s))) ! n \<noteq> c"
proof -
  let ?sl = "filter (\<lambda>i. i \<in> models s) (map db_id (filter (\<lambda>x. alive x \<and> db_id x \<noteq> c) (databases s)))"
  have "?sl ! n \<in> set ?sl" using assms(2) by (rule nth_mem)
  then have "?sl ! n \<in> set (map db_id (filter (\<lambda>x. alive x \<and> db_id x \<noteq> c) (databases s)))"
    by simp
  then have "?sl ! n \<in> {i. alive_of s i \<and> i \<noteq> c}"
    unfolding alive_ids [OF assms(1), of "\<lambda>i. i \<noteq> c"] .
  then show "alive_of s (?sl ! n)" and "?sl ! n \<noteq> c" by simp_all
qed

lemma write_propagation:
  assumes "distinct (map db_id (databases s))" "dat \<noteq> []" "coordinator s = Some c"
    "alive_of s c" "c \<in> models s" "delivered (outcomes s) 0"
    and sl: "slaves = filter (\<lambda>i. i \<in> models s)
               (map db_id (filter (\<lambda>x. alive x \<and> db_id x \<noteq> c) (databases s)))"
    and doc: "doc = \<lparr>oid = next_oid s, data = dat, createdAt = now\<rparr>"
  shows "fst (api_write [] dat now s) = Written c (term_of s c)"
    and "tests (stores (snd (api_write [] dat now s)) c) = tests (stores s c) @ [doc]"
    and "n < length slaves \<Longrightarrow>
         alive_of (snd (api_write [] dat now s)) (slaves ! n) = delivered (outcomes s) (Suc n)
       \<and> tests (stores (snd (api_write [] dat now s)) (slaves ! n))
           = (if delivered (outcomes s) (Suc n) then tests (stores s (slaves ! n)) @ [doc]
              else tests (stores s (slaves ! n)))"
proof -
  let ?all = "map db_id (filter (\<lambda>x. alive x \<and> db_id x \<noteq> c) (databases s))"
  let ?s2 = "set_tests c (tests (stores s c) @ [doc])
               (s\<lparr>next_oid := Suc (next_oid s), outcomes := tl (outcomes s)\<rparr>)"
  have run: "api_write [] dat now s = (Written c (term_of s c), propagate_write [] ?all doc ?s2)"
    unfolding doc by (rule write_success [OF assms(2-6)])
  have fil: "propagate_write [] ?all doc ?s2 = propagate_write [] slaves doc ?s2"
    unfolding sl by (subst pw_filter) simp
  show "fst (api_write [] dat now s) = Written c (term_of s c)"
    using run by simp
  have "c \<notin> set ?all" by auto
  then show "tests (stores (snd (api_write [] dat now s)) c) = tests (stores s c) @ [doc]"
    using run by (simp add: pw_frame)
  assume n: "n < length slaves"
  have d: "distinct slaves" unfolding sl using assms(1) by (rule distinct_others)
  have m: "set slaves \<subseteq> models ?s2" unfolding sl by auto
  have al: "alive_of s (slaves ! n)" and ne: "slaves ! n \<noteq> c"
    using others_alive [OF assms(1), of n c] n unfolding sl by simp_all
  from pw_indexed [OF d m n, of doc] al ne
  show "alive_of (snd (api_write [] dat now s)) (slaves ! n) = delivered (outcomes s) (Suc n)
       \<and> tests (stores (snd (api_write [] dat now s)) (slaves ! n))
           = (if delivered (outcomes s) (Suc n) then tests (stores s (slaves ! n)) @ [doc]
              else tests (stores s (slaves ! n)))"
    by (simp add: run fil delivered_tl)
qed

lemma update_propagation:
  assumes "distinct (map db_id (databases s))" "dat \<noteq> []" "coordinator s = Some c"
    "alive_of s c" "c \<in> models s" "delivered (outcomes s) 0"
    and sl: "slaves = filter (\<lambda>i. i \<in> models s)
               (map db_id (filter (\<lambda>x. alive x \<and> db_id x \<noteq> c) (databases s)))"
    and found: "find (\<lambda>x. oid x = k) (tests (stores s c)) = Some x"
  shows "fst (api_update [] (Some k) dat s) = Updated (x\<lparr>data := dat\<rparr>)"
    and "tests (stores (snd (api_update [] (Some k) dat s)) c) = update_first k dat (tests (stores s c))"
    and "n < length slaves \<Longrightarrow>
         alive_of (snd (api_update [] (Some k) dat s)) (slaves ! n) = delivered (outcomes s) (Suc n)
       \<and> tests (stores (snd (api_update [] (Some k) dat s)) (slaves ! n))
           = (if delivered (outcomes s) (Suc n) then update_first k dat (tests (stores s (slaves ! n)))
              else tests (stores s (slaves ! n)))"
proof -
  let ?all = "map db_id (filter (\<lambda>x. alive x \<and> db_id x \<noteq> c) (databases s))"
  let ?s2 = "set_tests c (update_first k dat (tests (stores s c))) (s\<lparr>outcomes := tl (outcomes s)\<rparr>)"
  have run: "api_update [] (Some k) dat s = (Updated (x\<lparr>data := dat\<rparr>), propagate_update [] ?all k dat ?s2)"
    by (rule update_success [OF assms(2-6) found])
  have fil: "propagate_update [] ?all k dat ?s2 = propagate_update [] slaves k dat ?s2"
    unfolding sl by (subst pu_filter) simp
  show "fst (api_update [] (Some k) dat s) = Updated (x\<lparr>data := dat\<rparr>)"
    using run by simp
  have "c \<notin> set ?all" by auto
  then show "tests (stores (snd (api_update [] (Some k) dat s)) c) = update_first k dat (tests (stores s c))"
    using run by (simp add: pu_frame)
  assume n: "n < length slaves"
  have d: "distinct slaves" unfolding sl using assms(1) by (rule distinct_others)
  have m: "set slaves \<subseteq> models ?s2" unfolding sl by auto
  have al: "alive_of s (slaves ! n)" and ne: "slaves ! n \<noteq> c"
    using others_alive [OF assms(1), of n c] n unfolding sl by simp_all
  from pu_indexed [OF d m n, of k dat] al ne
  show "alive_of (snd (api_update [] (Some k) dat s)) (slaves ! n) = delivered (outcomes s) (Suc n)
       \<and> tests (stores (snd (api_update [] (Some k) dat s)) (slaves ! n))
           = (if delivered (outcomes s) (Suc n) then update_first k dat (tests (stores s (slaves ! n)))
              else tests (stores s (slaves ! n)))"
    by (simp add: run fil delivered_tl)
qed

subsection \<open>Election\<close>

lemma lookup_None_iff: "lookup i dbs = None \<longleftrightarrow> i \<notin> set (map db_id dbs)"
  by (induction dbs) (auto simp: lookup_def)

lemma views_set_role_term:
  "role_of (modify i (\<lambda>x. x\<lparr>role := r, db_term := t\<rparr>) s) j
     = (if j = i \<and> lookup i (databases s) \<noteq> None then r else role_of s j)"
  "term_of (modify i (\<lambda>x. x\<lparr>role := r, db_term := t\<rparr>) s) j
     = (if j = i \<and> lookup i (databases s) \<noteq> None then t else term_of s j)"
    apply (simp_all add: views_modify)
   apply (auto simp: role_of_def term_of_def split: option.splits)
  done

lemma views_set_role_term' [simp]:
  "alive_of (modify i (\<lambda>x. x\<lparr>role := r, db_term := t\<rparr>) s) = alive_of s"
  "map db_id (databases (modify i (\<lambda>x. x\<lparr>role := r, db_term := t\<rparr>) s)) = map db_id (databases s)"
   apply (simp_all add: fun_eq_iff views_modify ids_modify)
  apply (simp_all add: alive_of_def split: option.splits)
  done

lemma cbm_fields [simp]:
  "map db_id (databases (snd (canBecomeMaster d s))) = map db_id (databases s)"
  "coordinator (snd (canBecomeMaster d s)) = coordinator s"
  "globalTerm (snd (canBecomeMaster d s)) = globalTerm s"
  "models (snd (canBecomeMaster d s)) = models s"
  "role_of (snd (canBecomeMaster d s)) = role_of s"
  "alive_of (snd (canBecomeMaster d s)) = alive_of s"
  by (simp_all add: canBecomeMaster_def unfold_cases split: result.split option.split)

lemma cbm_others [simp]:
  "j \<noteq> d \<Longrightarrow> tests (stores (snd (canBecomeMaster d s)) j) = tests (stores s j)"
  "j \<noteq> d \<Longrightarrow> metadata (stores (snd (canBecomeMaster d s)) j) = metadata (stores s j)"
  "j \<noteq> d \<Longrightarrow> term_of (snd (canBecomeMaster d s)) j = term_of s j"
  by (simp_all add: canBecomeMaster_def unfold_cases split: result.split option.split)

lemma cbm_eligible:
  "\<not> term_of s d < getHighestTerm s \<Longrightarrow> canBecomeMaster d s = (Returned True, s)"
  by (simp add: canBecomeMaster_def)

lemma cbm_stale:
  "term_of s d < getHighestTerm s \<Longrightarrow> fst (canBecomeMaster d s) \<noteq> Returned True"
  by (simp add: canBecomeMaster_def unfold_cases split: result.split option.split)

lemma cbm_True:
  "fst (canBecomeMaster d s) = Returned True \<Longrightarrow> snd (canBecomeMaster d s) = s"
  by (cases "term_of s d < getHighestTerm s") (simp_all add: cbm_stale cbm_eligible)

lemma demote_fields [simp]:
  "map db_id (databases (snd (demote other w s))) = map db_id (databases s)"
  "coordinator (snd (demote other w s)) = coordinator s"
  "globalTerm (snd (demote other w s)) = globalTerm s"
  "models (snd (demote other w s)) = models s"
  "alive_of (snd (demote other w s)) = alive_of s"
  by (simp_all add: demote_def unfold_cases split: result.split)


lemma demote_role:
  "role_of (snd (demote other w s)) j = Master \<Longrightarrow> role_of s j = Master"
  by (simp add: demote_def unfold_cases views_set_role_term split: result.splits if_splits)

lemma do_Cons:
  "demote_others (other # rest) w s =
     (if other = w then demote_others rest w s
      else if fst (demote other w s) = Threw then (Threw, snd (demote other w s))
      else demote_others rest w (snd (demote other w s)))"
  by (simp add: unfold_cases prod_eq_iff split: result.split)

declare demote_others.simps(2) [simp del]

lemma do_fields [simp]:
  "map db_id (databases (snd (demote_others os w s))) = map db_id (databases s)"
  "coordinator (snd (demote_others os w s)) = coordinator s"
  "globalTerm (snd (demote_others os w s)) = globalTerm s"
  "models (snd (demote_others os w s)) = models s"
  "alive_of (snd (demote_others os w s)) = alive_of s"
  by (induction os arbitrary: s; simp add: do_Cons)+


lemma do_role:
  "role_of (snd (demote_others os w s)) j = Master \<Longrightarrow> role_of s j = Master"
proof (induction os arbitrary: s)
  case Nil
  then show ?case by simp
next
  case (Cons other rest)
  show ?case
  proof (cases "other = w")
    case True
    then show ?thesis using Cons by (simp add: do_Cons)
  next
    case False
    show ?thesis
      using Cons.prems Cons.IH [of "snd (demote other w s)"] False
      by (auto simp add: do_Cons split: if_splits dest: demote_role)
  qed
qed



lemma promote_fields [simp]:
  "map db_id (databases (snd (promote d aliveDbs s))) = map db_id (databases s)"
  "coordinator (snd (promote d aliveDbs s)) = Some d"
  "globalTerm (snd (promote d aliveDbs s)) = globalTerm s"
  "models (snd (promote d aliveDbs s)) = models s"
  "alive_of (snd (promote d aliveDbs s)) = alive_of s"
  by (simp_all add: promote_def unfold_cases split: result.split)


lemma promote_role:
  "role_of (snd (promote d aliveDbs s)) j = Master \<Longrightarrow> j = d \<or> role_of s j = Master"
  by (auto simp add: promote_def unfold_cases views_set_role_term
      split: result.splits if_splits dest: do_role)



lemma el_Cons:
  "elect_loop (d # cands) aliveDbs s =
     (if fst (canBecomeMaster d s) = Threw then (Threw, snd (canBecomeMaster d s))
      else if fst (canBecomeMaster d s) = Returned True then promote d aliveDbs s
      else elect_loop cands aliveDbs (snd (canBecomeMaster d s)))"
  by (auto simp add: unfold_cases prod_eq_iff cbm_True split: result.split)

declare elect_loop.simps(2) [simp del]

lemma el_fields [simp]:
  "map db_id (databases (snd (elect_loop cands aliveDbs s))) = map db_id (databases s)"
  "globalTerm (snd (elect_loop cands aliveDbs s)) = globalTerm s"
  "models (snd (elect_loop cands aliveDbs s)) = models s"
  "alive_of (snd (elect_loop cands aliveDbs s)) = alive_of s"
  by (induction cands arbitrary: s; simp add: el_Cons)+

lemma el_role:
  assumes "d \<notin> set cands" "role_of (snd (elect_loop cands aliveDbs s)) d = Master"
  shows "role_of s d = Master"
  using assms
proof (induction cands arbitrary: s)
  case Nil
  then show ?case by simp
next
  case (Cons c cands)
  then have ne: "d \<noteq> c" and d: "d \<notin> set cands" by auto
  from Cons.prems(2) Cons.IH [OF d, of "snd (canBecomeMaster c s)"] ne
  show ?case
    by (auto simp add: el_Cons split: if_splits dest: promote_role)
qed

lemma el_coordinator:
  assumes "d \<notin> set cands" "coordinator (snd (elect_loop cands aliveDbs s)) = Some d"
  shows "coordinator s = Some d \<and> fst (elect_loop cands aliveDbs s) = Threw"
  using assms
proof (induction cands arbitrary: s)
  case Nil
  then show ?case by simp
next
  case (Cons c cands)
  then have ne: "d \<noteq> c" and d: "d \<notin> set cands" by auto
  from Cons.prems(2) Cons.IH [OF d, of "snd (canBecomeMaster c s)"] ne
  show ?case
    by (auto simp add: el_Cons split: if_splits)
qed


lemma alive_id_set:
  assumes "distinct (map db_id (databases s))"
  shows "set (map db_id (sort_key (\<lambda>x. - db_id x) (filter alive (databases s)))) = {i. alive_of s i}"
  using alive_ids [OF assms, of "\<lambda>i. True"] by simp


subsection \<open>Terms of registered nodes\<close>

lemma term_of_member:
  "distinct (map db_id (databases s)) \<Longrightarrow> d \<in> set (databases s) \<Longrightarrow> term_of s (db_id d) = db_term d"
  by (simp add: term_of_def lookup_member)

subsection \<open>Health check\<close>

lemma open_connection_fields [simp]:
  "map db_id (databases (snd (open_connection i s))) = map db_id (databases s)"
  "coordinator (snd (open_connection i s)) = coordinator s"
  "globalTerm (snd (open_connection i s)) = globalTerm s"
  "models (snd (open_connection i s)) = models s"
  "stores (snd (open_connection i s)) = stores s"
  "next_oid (snd (open_connection i s)) = next_oid s"
  by (simp_all add: open_connection_def unfold_cases ids_modify)

lemma views_set_connection [simp]:
  "role_of (modify i (\<lambda>x. x\<lparr>connection := b\<rparr>) s) = role_of s"
  "term_of (modify i (\<lambda>x. x\<lparr>connection := b\<rparr>) s) = term_of s"
  "alive_of (modify i (\<lambda>x. x\<lparr>connection := b\<rparr>) s) = alive_of s"
  "map db_id (databases (modify i (\<lambda>x. x\<lparr>connection := b\<rparr>) s)) = map db_id (databases s)"
     apply (simp_all add: fun_eq_iff views_modify ids_modify)
    apply (simp_all add: role_of_def term_of_def alive_of_def split: option.splits)
  done

lemma open_connection_views [simp]:
  "role_of (snd (open_connection i s)) = role_of s"
  "term_of (snd (open_connection i s)) = term_of s"
  "alive_of (snd (open_connection i s)) = alive_of s"
  by (simp_all add: open_connection_def unfold_cases)

lemma probe_fields [simp]:
  "map db_id (databases (snd (probe i s))) = map db_id (databases s)"
  "coordinator (snd (probe i s)) = coordinator s"
  "globalTerm (snd (probe i s)) = globalTerm s"
  "stores (snd (probe i s)) = stores s"
  "next_oid (snd (probe i s)) = next_oid s"
  "role_of (snd (probe i s)) = role_of s"
  "term_of (snd (probe i s)) = term_of s"
  by (simp_all add: probe_def unfold_cases split: result.split)

lemma probe_alive:
  "alive_of (snd (probe i s)) j
     = (if j = i \<and> fst (probe i s) \<noteq> Threw \<and> lookup i (databases s) \<noteq> None then True
        else alive_of s j)"
  by (simp add: probe_def unfold_cases alive_of_set_alive lookup_None_iff split: result.split)

lemma catch_rejoin_fields [simp]:
  "map db_id (databases (catch_rejoin i s)) = map db_id (databases s)"
  "coordinator (catch_rejoin i s) = coordinator s"
  "globalTerm (catch_rejoin i s) = globalTerm s"
  "models (catch_rejoin i s) = models s"
  "stores (catch_rejoin i s) = stores s"
  "role_of (catch_rejoin i s) = role_of s"
  "term_of (catch_rejoin i s) = term_of s"
     apply (simp_all add: catch_rejoin_def fun_eq_iff views_modify ids_modify)
    apply (simp_all add: role_of_def term_of_def split: option.splits)
  done

lemma catch_rejoin_alive:
  "alive_of (catch_rejoin i s) j = (if j = i then False else alive_of s j)"
  by (auto simp add: catch_rejoin_def views_modify alive_of_absent split: option.splits)

lemma rejoin_failed_sync:
  assumes "fst (probe i s) \<noteq> Threw" "fst (syncDataFromMaster i m (snd (probe i s))) = Threw"
  shows "rejoin i m s = catch_rejoin i (snd (syncDataFromMaster i m (snd (probe i s))))"
  using assms by (simp add: rejoin_def unfold_cases split: result.splits)

lemma catch_connect_fields [simp]:
  "map db_id (databases (catch_connect i s)) = map db_id (databases s)"
  "coordinator (catch_connect i s) = coordinator s"
  "globalTerm (catch_connect i s) = globalTerm s"
  "models (catch_connect i s) = models s"
  "stores (catch_connect i s) = stores s"
  "term_of (catch_connect i s) = term_of s"
   apply (simp_all add: catch_connect_def fun_eq_iff views_modify ids_modify)
  apply (simp_all add: term_of_def split: option.splits)
  done

lemma catch_connect_views:
  "alive_of (catch_connect i s) j = (if j = i then False else alive_of s j)"
  "role_of (catch_connect i s) j = (if j = i then Unknown else role_of s j)"
   apply (simp_all add: catch_connect_def views_modify)
   apply (auto simp add: alive_of_def role_of_def split: option.splits)
  done

lemma rejoin_fields [simp]:
  "map db_id (databases (rejoin i m s)) = map db_id (databases s)"
  "coordinator (rejoin i m s) = coordinator s"
  "globalTerm (rejoin i m s) = globalTerm s"
  "role_of (rejoin i m s) = role_of s"
  by (simp_all add: rejoin_def unfold_cases split: result.split)

lemma rejoin_alive: "j \<noteq> i \<Longrightarrow> alive_of (rejoin i m s) j = alive_of s j"
  by (simp add: rejoin_def unfold_cases catch_rejoin_alive probe_alive split: result.split)

lemma recheck_fields [simp]:
  "map db_id (databases (recheck i s)) = map db_id (databases s)"
  "coordinator (recheck i s) = coordinator s"
  "globalTerm (recheck i s) = globalTerm s"
  by (simp_all add: recheck_def unfold_cases split: result.split)

lemma recheck_views:
  "alive_of (recheck i s) j = (if j = i \<and> fst (open_connection i s) = Threw then False else alive_of s j)"
  "role_of (recheck i s) j = (if j = i \<and> fst (open_connection i s) = Threw then Unknown else role_of s j)"
  by (simp_all add: recheck_def unfold_cases catch_connect_views split: result.split)

lemma reload_fields [simp]:
  "map db_id (databases (reload i s)) = map db_id (databases s)"
  "coordinator (reload i s) = coordinator s"
  "globalTerm (reload i s) = globalTerm s"
  by (simp_all add: reload_def unfold_cases split: result.split option.split)

lemma reload_role:
  "role_of (reload i s) j = (if j = i \<and> \<not> reloaded i s then Unknown else role_of s j)"
  by (simp add: reload_def reloaded_def unfold_cases catch_connect_views
      split: result.split option.split)

lemma reload_alive:
  "alive_of (reload i s) j
     = (if j = i then reloaded i s \<and> lookup i (databases s) \<noteq> None else alive_of s j)"
  by (auto simp add: reload_def reloaded_def unfold_cases catch_connect_views probe_alive
      alive_of_absent split: result.split option.split)

lemma settled_rejoin: "settled s \<Longrightarrow> \<not> alive_of s i \<Longrightarrow> settled (rejoin i m s)"
  unfolding settled_def by (metis rejoin_fields(1,2,4) rejoin_alive)

lemma settled_recheck: "settled s \<Longrightarrow> settled (recheck i s)"
  unfolding settled_def by (simp add: recheck_views)

lemma settled_reload: "settled s \<Longrightarrow> settled (reload i s)"
  unfolding settled_def by (auto simp add: reload_role reload_alive split: if_splits dest: alive_of_registered)

subsection \<open>The invariant\<close>

lemma settled_fold:
  assumes "\<And>i t. settled t \<Longrightarrow> settled (f i t)" "settled s"
  shows "settled (fold f is s)"
  using assms(2) by (induction "is" arbitrary: s) (simp_all add: assms(1))

lemma settled_connectDBs: "settled s \<Longrightarrow> settled (connectDBs s)"
  unfolding connectDBs_def
  by (auto split: option.split intro!: settled_fold settled_reload settled_recheck settled_rejoin)

lemma connectDBs_coordinator: "coordinator (connectDBs s) = coordinator s"
proof -
  have a: "coordinator (fold reload is t) = coordinator t" for "is" t
    by (induction "is" arbitrary: t) simp_all
  have b: "coordinator (fold (\<lambda>i t. if \<not> alive_of t i then rejoin i m t else recheck i t) is t)
             = coordinator t" for "is" t m
    by (induction "is" arbitrary: t) simp_all
  show ?thesis
    by (simp add: connectDBs_def a b split: option.split)
qed

lemma no_master:
  assumes "settled s" "coordinator_down s"
  shows "role_of s i \<noteq> Master"
proof
  assume "role_of s i = Master"
  with assms(1) have "alive_of s i" "coordinator s = Some i" by (auto simp: settled_def)
  with assms(2) show False by (simp add: coordinator_down_def)
qed

lemma el_settled:
  assumes "\<forall>i. role_of s i \<noteq> Master" "\<forall>c \<in> set cands. alive_of s c"
    and "role_of (snd (elect_loop cands aliveDbs s)) i = Master"
  shows "alive_of s i \<and> coordinator (snd (elect_loop cands aliveDbs s)) = Some i"
  using assms
proof (induction cands arbitrary: s)
  case Nil
  then show ?case by simp
next
  case (Cons c cands)
  show ?case
  proof (cases "fst (canBecomeMaster c s) = Threw")
    case True
    with Cons.prems show ?thesis by (simp add: el_Cons)
  next
    case nt: False
    show ?thesis
    proof (cases "fst (canBecomeMaster c s) = Returned True")
      case True
      then have eq: "elect_loop (c # cands) aliveDbs s = promote c aliveDbs s"
        by (simp add: el_Cons)
      from Cons.prems(3) have "i = c \<or> role_of s i = Master"
        unfolding eq by (rule promote_role)
      with Cons.prems(1) have "i = c" by simp
      with Cons.prems(2) show ?thesis by (simp add: eq)
    next
      case False
      let ?s1 = "snd (canBecomeMaster c s)"
      have eq: "elect_loop (c # cands) aliveDbs s = elect_loop cands aliveDbs ?s1"
        using nt False by (simp add: el_Cons)
      have "alive_of ?s1 i \<and> coordinator (snd (elect_loop cands aliveDbs ?s1)) = Some i"
        using Cons.prems by (intro Cons.IH) (simp_all add: eq)
      then show ?thesis by (simp add: eq)
    qed
  qed
qed

lemma settled_elect:
  assumes "settled s" "coordinator_down s"
  shows "settled (snd (electCoordinator s))"
proof -
  let ?s0 = "s\<lparr>globalTerm := globalTerm s + 1\<rparr>"
  let ?al = "map db_id (sort_key (\<lambda>x. - db_id x) (filter alive (databases s)))"
  have run: "electCoordinator s = elect_loop ?al ?al ?s0"
    by (simp add: electCoordinator_def Let_def)
  have d: "distinct (map db_id (databases s))" using assms(1) by (simp add: settled_def)
  have al: "\<forall>c \<in> set ?al. alive_of ?s0 c"
    using alive_id_set [OF d] by auto
  have nm: "\<forall>i. role_of ?s0 i \<noteq> Master"
    using no_master [OF assms] by simp
  have "alive_of (snd (electCoordinator s)) i \<and> coordinator (snd (electCoordinator s)) = Some i"
    if "role_of (snd (electCoordinator s)) i = Master" for i
    using el_settled [OF nm al, of ?al i] that unfolding run by simp
  then show ?thesis
    using d unfolding settled_def by (simp add: run)
qed

lemma not_in_others: "c \<notin> set (map db_id (filter (\<lambda>x. alive x \<and> db_id x \<noteq> c) dbs))"
  by auto

lemma write_views:
  "map db_id (databases (snd (api_write [] dat now s))) = map db_id (databases s)"
  "coordinator (snd (api_write [] dat now s)) = coordinator s"
  "role_of (snd (api_write [] dat now s)) = role_of s"
  "coordinator s = Some c \<Longrightarrow> alive_of (snd (api_write [] dat now s)) c = alive_of s c"
  by (auto simp add: api_write_def unfold_cases pw_frame [OF not_in_others] split: option.split)

lemma update_views:
  "map db_id (databases (snd (api_update [] ident dat s))) = map db_id (databases s)"
  "coordinator (snd (api_update [] ident dat s)) = coordinator s"
  "role_of (snd (api_update [] ident dat s)) = role_of s"
  "coordinator s = Some c \<Longrightarrow> alive_of (snd (api_update [] ident dat s)) c = alive_of s c"
  by (auto simp add: api_update_def unfold_cases pu_frame [OF not_in_others] split: option.split result.split)

lemma read_views:
  "databases (snd (api_read dbId s)) = databases s"
  "coordinator (snd (api_read dbId s)) = coordinator s"
  by (simp_all add: api_read_def unfold_cases split: option.split)

lemma settled_write: "settled s \<Longrightarrow> settled (snd (api_write [] dat now s))"
  unfolding settled_def by (auto simp add: write_views)

lemma settled_update: "settled s \<Longrightarrow> settled (snd (api_update [] ident dat s))"
  unfolding settled_def by (auto simp add: update_views)

lemma settled_read: "settled s \<Longrightarrow> settled (snd (api_read dbId s))"
  unfolding settled_def by (simp add: read_views role_of_def alive_of_def)

lemma settled_world: "settled s \<Longrightarrow> settled (s\<lparr>stores := st, outcomes := os\<rparr>)"
  unfolding settled_def by simp

lemma settled_initial: "distinct ids \<Longrightarrow> settled (initial ids st os n)"
proof -
  have "role_of (initial ids st os n) i = Unknown" for i
    by (induction ids) (simp_all add: initial_def role_of_def lookup_def)
  moreover have "map db_id (databases (initial ids st os n)) = ids"
    by (simp add: initial_def comp_def)
  ultimately show "distinct ids \<Longrightarrow> settled (initial ids st os n)"
    by (simp add: settled_def)
qed

lemma sequential_settled: "sequential s \<Longrightarrow> settled s"
  by (induction rule: sequential.induct)
     (simp_all add: settled_initial settled_connectDBs settled_elect settled_write
        settled_update settled_read settled_world)

subsection \<open>The coordination loop\<close>

lemma sequential_monitor_start:
  "distinct ids \<Longrightarrow> sequential (snd (monitor_start (initial ids st os n)))"
proof -
  assume d: "distinct ids"
  have r: "sequential (connectDBs (initial ids st os n))"
    by (intro sequential.connect sequential.start d)
  have "coordinator_down (connectDBs (initial ids st os n))"
    by (simp add: coordinator_down_def connectDBs_coordinator initial_def)
  with r show ?thesis
    unfolding monitor_start_def by (rule sequential.elect)
qed

lemma sequential_monitor_tick: "sequential s \<Longrightarrow> sequential (snd (monitor_tick s))"
  by (simp add: monitor_tick_def Let_def sequential.connect sequential.elect)

lemma count_le_one:
  assumes "distinct (map f xs)" "\<forall>x \<in> set xs. P x \<longrightarrow> f x = c"
  shows "length (filter P xs) \<le> 1"
  using assms
proof (induction xs)
  case Nil
  then show ?case by simp
next
  case (Cons x xs)
  show ?case
  proof (cases "P x")
    case False
    with Cons show ?thesis by simp
  next
    case True
    with Cons.prems have "f x = c" and "c \<notin> f ` set xs" by auto
    have "\<not> P y" if "y \<in> set xs" for y
    proof
      assume "P y"
      with Cons.prems(2) that have "f y = c" by simp
      with that \<open>c \<notin> f ` set xs\<close> show False by blast
    qed
    then have "\<forall>y \<in> set xs. \<not> P y" by blast
    then have "filter P xs = []" by (simp add: filter_empty_conv)
    with True show ?thesis by simp
  qed
qed

text \<open>The equations that evaluate a run on a concrete state.\<close>

lemmas eval_defs =
  lookup_def modify_def term_of_def alive_of_def role_of_def await_def set_tests_def
  set_metadata_def updateOne_def insertMany_def syncDataFromMaster_def Let_def
  getHighestTerm_def canBecomeMaster_def demote_def promote_def electCoordinator_def
  demote_others.simps(2) elect_loop.simps(2) open_connection_def probe_def catch_rejoin_def
  catch_connect_def rejoin_def recheck_def reload_def connectDBs_def monitor_start_def
  monitor_tick_def initial_def empty_stores_def old_stores_def leftover_stores_def
  started_def failed_over_def uneven_stores_def uneven_start_def
  delivered_def coordinator_down_def findByIdAndUpdate_def api_write_def api_update_def
  api_read_def lost_write_def late_catch_def second_failover_def two_masters_def
  stocked_stores_def stocked_start_def

section \<open>Replication\<close>

text \<open>
  What a call of \<^verbatim>\<open>syncDataFromMaster\<close> that returns establishes, for a target \<open>d\<close> of the
  registry other than the source \<open>m\<close>, both with models: the target then holds one
  document for every document of the source, in the same order and with the same payload
  and timestamp, and nothing else; the documents are new ones, with the object ids that
  were fresh at the call. The source is left as it was. The term of the target is then
  the term of the source, in memory, and in the storage of the target when it holds a
  term document.
\<close>

theorem sync_replaces_records_and_term:
  assumes "syncDataFromMaster d m s = (Returned (), s')"
    and "d \<noteq> m" and "d \<in> models s" and "m \<in> models s"
    and "lookup d (databases s) \<noteq> None"
  shows "tests (stores s' d) = fresh_copies (next_oid s) (tests (stores s m))
       \<and> map (\<lambda>x. (data x, createdAt x)) (tests (stores s' d))
           = map (\<lambda>x. (data x, createdAt x)) (tests (stores s m))
       \<and> map oid (tests (stores s' d))
           = [next_oid s ..< next_oid s + length (tests (stores s m))]
       \<and> tests (stores s' m) = tests (stores s m)
       \<and> term_of s' d = term_of s m
       \<and> (metadata (stores s d) \<noteq> None \<longrightarrow> metadata (stores s' d) = Some (term_of s m))"
proof -
  have r: "fst (syncDataFromMaster d m s) \<noteq> Threw"
    and s': "s' = snd (syncDataFromMaster d m s)"
    using assms(1) by simp_all
  note facts = sync_Returned [OF assms(2,3,4) r assms(5)]
  have copies: "tests (stores s' d) = fresh_copies (next_oid s) (tests (stores s m))"
    using facts(1) s' by simp
  have source: "tests (stores s' m) = tests (stores s m)"
    using assms(2) s' by simp
  show ?thesis
    using copies source facts(2,3) s'
    by (simp add: fresh_copies_content fresh_copies_oid)
qed

theorem sync_replaces_records_and_term_witness:
  "syncDataFromMaster 1 2 rejoin_state
     = (Returned (), snd (syncDataFromMaster 1 2 rejoin_state))
   \<and> tests (stores (snd (syncDataFromMaster 1 2 rejoin_state)) 1)
     = [\<lparr>oid = 2, data = ''old'', createdAt = 1\<rparr>, \<lparr>oid = 3, data = ''a'', createdAt = 5\<rparr>]
   \<and> term_of (snd (syncDataFromMaster 1 2 rejoin_state)) 1 = 3
   \<and> metadata (stores (snd (syncDataFromMaster 1 2 rejoin_state)) 1) = Some 3"
proof -
  have run: "syncDataFromMaster 1 2 rejoin_state
               = (Returned (), snd (syncDataFromMaster 1 2 rejoin_state))"
    by (simp add: prod_eq_iff rejoin_state_def eval_defs)
  have reg: "lookup 1 (databases rejoin_state) \<noteq> None"
    by (simp add: rejoin_state_def lookup_def)
  have "(1::int) \<noteq> 2" and "1 \<in> models rejoin_state" and "2 \<in> models rejoin_state"
    by (simp_all add: rejoin_state_def)
  from sync_replaces_records_and_term [OF run this reg] run show ?thesis
    by (simp add: rejoin_state_def eval_defs)
qed

text \<open>
  C5. The records of the source are to be inserted into the target with their identity.
  \<^verbatim>\<open>syncDataFromMaster\<close> does not do that: in \<open>rejoin_state\<close> the documents of the master 2
  have the object ids 0 and 1, and their copies on the node 1 get the object ids 2 and 3,
  although the node 1 held the record 0 under that id before. The handlers count on
  equal ids on all nodes: a write after the synchronisation has the same object id 4 on
  both nodes, while an update of the record 0 succeeds on the master and changes nothing
  on the node 1, which stays alive with the old payload.
\<close>

theorem sync_drops_identity:
  "fst (syncDataFromMaster 1 2 rejoin_state) = Returned ()
   \<and> tests (stores rejoin_state 2)
       = [\<lparr>oid = 0, data = ''old'', createdAt = 1\<rparr>, \<lparr>oid = 1, data = ''a'', createdAt = 5\<rparr>]
   \<and> tests (stores (snd (syncDataFromMaster 1 2 rejoin_state)) 1)
       = [\<lparr>oid = 2, data = ''old'', createdAt = 1\<rparr>, \<lparr>oid = 3, data = ''a'', createdAt = 5\<rparr>]
   \<and> fst (api_update [] (Some 0) ''b'' (snd (syncDataFromMaster 1 2 rejoin_state)))
       = Updated \<lparr>oid = 0, data = ''b'', createdAt = 1\<rparr>
   \<and> alive_of (snd (api_update [] (Some 0) ''b'' (snd (syncDataFromMaster 1 2 rejoin_state)))) 1
   \<and> tests (stores (snd (api_update [] (Some 0) ''b'' (snd (syncDataFromMaster 1 2 rejoin_state)))) 2)
       = [\<lparr>oid = 0, data = ''b'', createdAt = 1\<rparr>, \<lparr>oid = 1, data = ''a'', createdAt = 5\<rparr>]
   \<and> tests (stores (snd (api_update [] (Some 0) ''b'' (snd (syncDataFromMaster 1 2 rejoin_state)))) 1)
       = [\<lparr>oid = 2, data = ''old'', createdAt = 1\<rparr>, \<lparr>oid = 3, data = ''a'', createdAt = 5\<rparr>]
   \<and> tests (stores (snd (api_write [] ''c'' 7 (snd (syncDataFromMaster 1 2 rejoin_state)))) 2)
       = [\<lparr>oid = 0, data = ''old'', createdAt = 1\<rparr>, \<lparr>oid = 1, data = ''a'', createdAt = 5\<rparr>,
          \<lparr>oid = 4, data = ''c'', createdAt = 7\<rparr>]
   \<and> tests (stores (snd (api_write [] ''c'' 7 (snd (syncDataFromMaster 1 2 rejoin_state)))) 1)
       = [\<lparr>oid = 2, data = ''old'', createdAt = 1\<rparr>, \<lparr>oid = 3, data = ''a'', createdAt = 5\<rparr>,
          \<lparr>oid = 4, data = ''c'', createdAt = 7\<rparr>]"
  by (simp add: rejoin_state_def eval_defs)

theorem sync_drops_identity_witness:
  "map oid (tests (stores rejoin_state 2)) = [0, 1]
   \<and> map oid (tests (stores (snd (syncDataFromMaster 1 2 rejoin_state)) 1)) = [2, 3]"
  using sync_drops_identity by simp

text \<open>
  Two calls of \<^verbatim>\<open>syncDataFromMaster\<close> in a row, both returning: the target holds after the
  second call documents with the same payloads and timestamps, in the same order, as
  after the first.
\<close>

theorem sync_twice_same_content:
  assumes "syncDataFromMaster d m s = (Returned (), s1)"
    and "syncDataFromMaster d m s1 = (Returned (), s2)"
  shows "map (\<lambda>x. (data x, createdAt x)) (tests (stores s2 d))
         = map (\<lambda>x. (data x, createdAt x)) (tests (stores s1 d))"
proof (cases "d = m \<or> d \<notin> models s \<or> m \<notin> models s")
  case True
  then have "s1 = s" using assms(1) by (simp add: sync_skip)
  with True assms(2) have "s2 = s1" by (simp add: sync_skip)
  then show ?thesis by simp
next
  case False
  have s1: "s1 = snd (syncDataFromMaster d m s)" and r1: "fst (syncDataFromMaster d m s) \<noteq> Threw"
    using assms(1) by simp_all
  have s2: "s2 = snd (syncDataFromMaster d m s1)" and r2: "fst (syncDataFromMaster d m s1) \<noteq> Threw"
    using assms(2) by simp_all
  have m1: "models s1 = models s" and src: "tests (stores s1 m) = tests (stores s m)"
    using False s1 by simp_all
  have first: "tests (stores s1 d) = fresh_copies (next_oid s) (tests (stores s m))"
    using False r1 s1
    by (simp add: syncDataFromMaster_def unfold_cases insertMany_tests
        split: result.splits if_splits)
  have second: "tests (stores s2 d) = fresh_copies (next_oid s1) (tests (stores s1 m))"
    using False r2 s2 m1
    by (simp add: syncDataFromMaster_def unfold_cases insertMany_tests
        split: result.splits if_splits)
  show ?thesis
    by (simp add: first second src fresh_copies_content)
qed

theorem sync_twice_same_content_witness:
  "syncDataFromMaster 1 2 rejoin_state
     = (Returned (), snd (syncDataFromMaster 1 2 rejoin_state))
   \<and> syncDataFromMaster 1 2 (snd (syncDataFromMaster 1 2 rejoin_state))
     = (Returned (), snd (syncDataFromMaster 1 2 (snd (syncDataFromMaster 1 2 rejoin_state))))
   \<and> map (\<lambda>x. (data x, createdAt x))
       (tests (stores (snd (syncDataFromMaster 1 2 (snd (syncDataFromMaster 1 2 rejoin_state)))) 1))
     = [(''old'', 1), (''a'', 5)]"
proof -
  have run1: "syncDataFromMaster 1 2 rejoin_state
               = (Returned (), snd (syncDataFromMaster 1 2 rejoin_state))"
    by (simp add: prod_eq_iff rejoin_state_def eval_defs)
  have run2: "syncDataFromMaster 1 2 (snd (syncDataFromMaster 1 2 rejoin_state))
     = (Returned (), snd (syncDataFromMaster 1 2 (snd (syncDataFromMaster 1 2 rejoin_state))))"
    by (simp add: prod_eq_iff rejoin_state_def eval_defs)
  have first: "map (\<lambda>x. (data x, createdAt x))
                 (tests (stores (snd (syncDataFromMaster 1 2 rejoin_state)) 1))
               = [(''old'', 1), (''a'', 5)]"
    by (simp add: rejoin_state_def eval_defs)
  from sync_twice_same_content [OF run1 run2] run1 run2 first show ?thesis
    by simp
qed

text \<open>
  C9. A second synchronisation is to leave the records of the target as the first left
  them. It does not: every call deletes the documents of the target and inserts new ones,
  so in \<open>rejoin_state\<close> the node 1 holds the documents with the object ids 2 and 3 after
  the first call and those with the object ids 4 and 5 after the second.
\<close>

theorem sync_twice_changes_records:
  "fst (syncDataFromMaster 1 2 rejoin_state) = Returned ()
   \<and> fst (syncDataFromMaster 1 2 (snd (syncDataFromMaster 1 2 rejoin_state))) = Returned ()
   \<and> tests (stores (snd (syncDataFromMaster 1 2 rejoin_state)) 1)
     = [\<lparr>oid = 2, data = ''old'', createdAt = 1\<rparr>, \<lparr>oid = 3, data = ''a'', createdAt = 5\<rparr>]
   \<and> tests (stores (snd (syncDataFromMaster 1 2 (snd (syncDataFromMaster 1 2 rejoin_state)))) 1)
     = [\<lparr>oid = 4, data = ''old'', createdAt = 1\<rparr>, \<lparr>oid = 5, data = ''a'', createdAt = 5\<rparr>]
   \<and> tests (stores (snd (syncDataFromMaster 1 2 (snd (syncDataFromMaster 1 2 rejoin_state)))) 1)
     \<noteq> tests (stores (snd (syncDataFromMaster 1 2 rejoin_state)) 1)"
  by (simp add: rejoin_state_def eval_defs)

theorem sync_twice_changes_records_witness:
  "map oid (tests (stores (snd (syncDataFromMaster 1 2 rejoin_state)) 1)) = [2, 3]
   \<and> map oid (tests (stores (snd (syncDataFromMaster 1 2 (snd (syncDataFromMaster 1 2 rejoin_state)))) 1))
       = [4, 5]"
  using sync_twice_changes_records by simp

section \<open>Reading\<close>

text \<open>
  C10. A read that answers with documents answers with the first ten documents of the
  node at most, each reduced to its payload and its creation time.
\<close>

theorem read_at_most_ten:
  assumes "api_read dbId s = (ReadOk r t recs, s')"
  shows "length recs \<le> 10 \<and>
         recs = map (\<lambda>x. (data x, createdAt x)) (take 10 (tests (stores s dbId)))"
proof -
  from assms obtain d where d: "lookup dbId (databases s) = Some d"
    by (auto simp: api_read_def split: option.splits)
  then have "db_id d = dbId"
    by (auto simp: lookup_def find_Some_iff)
  with assms d show ?thesis
    by (auto simp: api_read_def unfold_cases split: if_splits)
qed

theorem read_at_most_ten_witness:
  "api_read 2 read_state
     = (ReadOk Master 1 (map (\<lambda>n. (''x'', n)) [0 ..< 10]), snd (api_read 2 read_state))
   \<and> length (tests (stores read_state 2)) = 12
   \<and> length (map (\<lambda>n. (''x'', n)) [0 ..< 10 :: nat]) \<le> 10"
proof -
  have run: "api_read 2 read_state
     = (ReadOk Master 1 (map (\<lambda>n. (''x'', n)) [0 ..< 10]), snd (api_read 2 read_state))"
    by (simp add: prod_eq_iff api_read_def read_state_def twelve_docs_def lookup_def
        await_def upt_rec)
  from read_at_most_ten [OF run] run show ?thesis
    by (simp add: read_state_def twelve_docs_def)
qed

section \<open>Writing and updating\<close>

text \<open>
  Propagation when nothing else runs while the handler waits (the empty schedule). A write
  or an update that the coordinator \<open>c\<close> has committed (its own storage call succeeded; for
  an update the record exists on it) answers with success and keeps the commit, whatever
  happens on the replicas. \<open>slaves\<close> are the other alive nodes, in the order of the registry
  (a node without models is skipped by the handlers). The replica number \<open>n\<close> is decided by
  its own storage call alone, the call number \<open>n + 1\<close> of the request: when it succeeds the
  replica has had the write or \<^verbatim>\<open>findByIdAndUpdate\<close> applied and stays alive, when it fails
  the replica is marked not alive and its records are untouched; in both cases the
  replicas after it are attempted in the same way.
\<close>

theorem propagation_failure_is_local:
  assumes "distinct (map db_id (databases s))" and "dat \<noteq> []" and "coordinator s = Some c"
    and "alive_of s c" and "c \<in> models s" and "delivered (outcomes s) 0"
    and "slaves = filter (\<lambda>i. i \<in> models s)
           (map db_id (filter (\<lambda>x. alive x \<and> db_id x \<noteq> c) (databases s)))"
    and "doc = \<lparr>oid = next_oid s, data = dat, createdAt = now\<rparr>"
  shows "fst (api_write [] dat now s) = Written c (term_of s c)
       \<and> tests (stores (snd (api_write [] dat now s)) c) = tests (stores s c) @ [doc]
       \<and> (\<forall>n < length slaves.
            alive_of (snd (api_write [] dat now s)) (slaves ! n) = delivered (outcomes s) (Suc n)
          \<and> tests (stores (snd (api_write [] dat now s)) (slaves ! n))
              = (if delivered (outcomes s) (Suc n) then tests (stores s (slaves ! n)) @ [doc]
                 else tests (stores s (slaves ! n))))
       \<and> (\<forall>x. find (\<lambda>y. oid y = k) (tests (stores s c)) = Some x \<longrightarrow>
            fst (api_update [] (Some k) dat s) = Updated (x\<lparr>data := dat\<rparr>)
          \<and> tests (stores (snd (api_update [] (Some k) dat s)) c)
              = update_first k dat (tests (stores s c))
          \<and> (\<forall>n < length slaves.
               alive_of (snd (api_update [] (Some k) dat s)) (slaves ! n)
                 = delivered (outcomes s) (Suc n)
             \<and> tests (stores (snd (api_update [] (Some k) dat s)) (slaves ! n))
                 = (if delivered (outcomes s) (Suc n)
                    then update_first k dat (tests (stores s (slaves ! n)))
                    else tests (stores s (slaves ! n)))))"
proof (intro conjI allI impI)
  show "fst (api_write [] dat now s) = Written c (term_of s c)"
    by (rule write_propagation(1) [OF assms])
  show "tests (stores (snd (api_write [] dat now s)) c) = tests (stores s c) @ [doc]"
    by (rule write_propagation(2) [OF assms])
next
  fix n assume n: "n < length slaves"
  from write_propagation(3) [OF assms n]
  show "alive_of (snd (api_write [] dat now s)) (slaves ! n) = delivered (outcomes s) (Suc n)"
    and "tests (stores (snd (api_write [] dat now s)) (slaves ! n))
           = (if delivered (outcomes s) (Suc n) then tests (stores s (slaves ! n)) @ [doc]
              else tests (stores s (slaves ! n)))"
    by simp_all
next
  fix x assume x: "find (\<lambda>y. oid y = k) (tests (stores s c)) = Some x"
  show "fst (api_update [] (Some k) dat s) = Updated (x\<lparr>data := dat\<rparr>)"
    by (rule update_propagation(1) [OF assms(1-7) x])
  show "tests (stores (snd (api_update [] (Some k) dat s)) c)
          = update_first k dat (tests (stores s c))"
    by (rule update_propagation(2) [OF assms(1-7) x])
  fix n assume n: "n < length slaves"
  from update_propagation(3) [OF assms(1-7) x n]
  show "alive_of (snd (api_update [] (Some k) dat s)) (slaves ! n) = delivered (outcomes s) (Suc n)"
    and "tests (stores (snd (api_update [] (Some k) dat s)) (slaves ! n))
           = (if delivered (outcomes s) (Suc n)
              then update_first k dat (tests (stores s (slaves ! n)))
              else tests (stores s (slaves ! n)))"
    by simp_all
qed

theorem propagation_failure_is_local_witness:
  "fst (api_write [] ''v'' 9 three_nodes) = Written 3 1
   \<and> tests (stores (snd (api_write [] ''v'' 9 three_nodes)) 3)
       = [\<lparr>oid = 0, data = ''r'', createdAt = 4\<rparr>, \<lparr>oid = 1, data = ''v'', createdAt = 9\<rparr>]
   \<and> \<not> alive_of (snd (api_write [] ''v'' 9 three_nodes)) 2
   \<and> tests (stores (snd (api_write [] ''v'' 9 three_nodes)) 2)
       = [\<lparr>oid = 0, data = ''r'', createdAt = 4\<rparr>]
   \<and> alive_of (snd (api_write [] ''v'' 9 three_nodes)) 1
   \<and> tests (stores (snd (api_write [] ''v'' 9 three_nodes)) 1)
       = [\<lparr>oid = 0, data = ''r'', createdAt = 4\<rparr>, \<lparr>oid = 1, data = ''v'', createdAt = 9\<rparr>]
   \<and> fst (api_update [] (Some 0) ''v'' three_nodes) = Updated \<lparr>oid = 0, data = ''v'', createdAt = 4\<rparr>
   \<and> \<not> alive_of (snd (api_update [] (Some 0) ''v'' three_nodes)) 2
   \<and> tests (stores (snd (api_update [] (Some 0) ''v'' three_nodes)) 1)
       = [\<lparr>oid = 0, data = ''v'', createdAt = 4\<rparr>]"
proof -
  have h: "distinct (map db_id (databases three_nodes))" "''v'' \<noteq> []"
    "coordinator three_nodes = Some 3" "alive_of three_nodes 3" "3 \<in> models three_nodes"
    "delivered (outcomes three_nodes) 0"
    "[2, 1] = filter (\<lambda>i. i \<in> models three_nodes)
       (map db_id (filter (\<lambda>x. alive x \<and> db_id x \<noteq> 3) (databases three_nodes)))"
    "\<lparr>oid = 1, data = ''v'', createdAt = 9\<rparr>
       = \<lparr>oid = next_oid three_nodes, data = ''v'', createdAt = 9\<rparr>"
    by (simp_all add: three_nodes_def eval_defs)
  have f: "find (\<lambda>y. oid y = 0) (tests (stores three_nodes 3))
             = Some \<lparr>oid = 0, data = ''r'', createdAt = 4\<rparr>"
    by (simp add: three_nodes_def)
  have d: "delivered (outcomes three_nodes) (Suc 0) = False"
    "delivered (outcomes three_nodes) (Suc (Suc 0)) = True"
    by (simp_all add: three_nodes_def delivered_def)
  have t: "term_of three_nodes 3 = 1"
    "tests (stores three_nodes 1) = [\<lparr>oid = 0, data = ''r'', createdAt = 4\<rparr>]"
    "tests (stores three_nodes 2) = [\<lparr>oid = 0, data = ''r'', createdAt = 4\<rparr>]"
    "tests (stores three_nodes 3) = [\<lparr>oid = 0, data = ''r'', createdAt = 4\<rparr>]"
    by (simp_all add: three_nodes_def eval_defs)
  note T = propagation_failure_is_local [OF h, where k = 0]
  from T f show ?thesis
    by (simp add: All_less_Suc d t)
qed

text \<open>
  C7. The claim fails when the coordinator changes while the handler waits for the save on
  the master: \<^verbatim>\<open>/api/write\<close> takes \<^verbatim>\<open>MasterModel\<close> from \<^verbatim>\<open>coordinator\<close> before the save
  (line 255) and reads \<^verbatim>\<open>coordinator\<close> again for the filter of the slaves (line 258) and for
  the answer (line 272). In \<open>lost_write\<close> the cluster has started with the node 2 as master
  and the node 1 as slave, both alive with models. The record is saved on the node 2;
  during that save a tick finds the node 2 unreachable and elects the node 1. The handler
  then filters the slaves against the node 1, finds none, and answers 201 "Written to"
  the node 1 with the term 2. The node 1 is alive and is the coordinator, no save on it
  was attempted (no awaited call is left over and it holds no record), and the record is
  on the node 2 only, which is not alive.
\<close>

theorem write_lost_on_failover:
  "databases started
     = [\<lparr>db_id = 2, role = Master, alive = True, connection = True, db_term = 1\<rparr>,
        \<lparr>db_id = 1, role = Slave, alive = True, connection = True, db_term = 1\<rparr>]
   \<and> coordinator started = Some 2 \<and> models started = {1, 2}
   \<and> fst lost_write = Written 1 2
   \<and> databases (snd lost_write)
       = [\<lparr>db_id = 2, role = Unknown, alive = False, connection = False, db_term = 1\<rparr>,
          \<lparr>db_id = 1, role = Master, alive = True, connection = True, db_term = 2\<rparr>]
   \<and> coordinator (snd lost_write) = Some 1
   \<and> models (snd lost_write) = {1, 2}
   \<and> outcomes (snd lost_write) = []
   \<and> tests (stores (snd lost_write) 2) = [\<lparr>oid = 0, data = ''v'', createdAt = 7\<rparr>]
   \<and> tests (stores (snd lost_write) 1) = []"
  by (simp add: eval_defs insert_commute)

theorem write_lost_on_failover_witness:
  "fst lost_write = Written 1 2
   \<and> alive_of (snd lost_write) 1
   \<and> \<not> alive_of (snd lost_write) 2
   \<and> tests (stores (snd lost_write) 1) = []"
  using write_lost_on_failover by (simp add: alive_of_def lookup_def)




section \<open>Election\<close>

text \<open>
  C2. \<open>elect_loop (d # cands)\<close> is the election at the moment at which the candidate \<open>d\<close> is
  checked, \<open>cands\<close> being the candidates after it (\<open>d\<close> is not among them, the ids being
  distinct). When the term of \<open>d\<close> is below the highest term of the alive nodes at that
  moment, \<^verbatim>\<open>canBecomeMaster\<close> does not accept it; when a coordinator \<open>c\<close> is tracked, what
  it does is the call \<^verbatim>\<open>syncDataFromMaster(d, c)\<close>, and with no coordinator it does
  nothing; the election goes on with the next candidate (or is left by the exception of
  the synchronisation); and at its end \<open>d\<close> has the role of master only if it had it
  before, and is the tracked coordinator only if it was before and the election threw.
\<close>

theorem stale_candidate_is_rejected:
  assumes "term_of s d < getHighestTerm s" and "d \<notin> set cands"
  shows "fst (canBecomeMaster d s) \<noteq> Returned True
       \<and> (coordinator s = None \<longrightarrow> canBecomeMaster d s = (Returned False, s))
       \<and> (\<forall>c. coordinator s = Some c \<and> lookup c (databases s) \<noteq> None \<longrightarrow>
             snd (canBecomeMaster d s) = snd (syncDataFromMaster d c s)
           \<and> (fst (canBecomeMaster d s) = Threw) = (fst (syncDataFromMaster d c s) = Threw))
       \<and> elect_loop (d # cands) aliveDbs s
           = (if fst (canBecomeMaster d s) = Threw then (Threw, snd (canBecomeMaster d s))
              else elect_loop cands aliveDbs (snd (canBecomeMaster d s)))
       \<and> (role_of (snd (elect_loop (d # cands) aliveDbs s)) d = Master \<longrightarrow> role_of s d = Master)
       \<and> (coordinator (snd (elect_loop (d # cands) aliveDbs s)) = Some d \<longrightarrow>
             coordinator s = Some d \<and> fst (elect_loop (d # cands) aliveDbs s) = Threw)"
proof (intro conjI allI impI)
  show no: "fst (canBecomeMaster d s) \<noteq> Returned True"
    using assms(1) by (rule cbm_stale)
  show "canBecomeMaster d s = (Returned False, s)" if "coordinator s = None"
    using assms(1) that by (simp add: canBecomeMaster_def)
  show step: "elect_loop (d # cands) aliveDbs s
           = (if fst (canBecomeMaster d s) = Threw then (Threw, snd (canBecomeMaster d s))
              else elect_loop cands aliveDbs (snd (canBecomeMaster d s)))"
    using no by (simp add: el_Cons)
  show "role_of s d = Master" if "role_of (snd (elect_loop (d # cands) aliveDbs s)) d = Master"
  proof (cases "fst (canBecomeMaster d s) = Threw")
    case True
    with that show ?thesis by (simp add: step)
  next
    case False
    with that have "role_of (snd (elect_loop cands aliveDbs (snd (canBecomeMaster d s)))) d = Master"
      by (simp add: step)
    from el_role [OF assms(2) this] show ?thesis by simp
  qed
  { assume c: "coordinator (snd (elect_loop (d # cands) aliveDbs s)) = Some d"
    have "coordinator s = Some d \<and> fst (elect_loop (d # cands) aliveDbs s) = Threw"
    proof (cases "fst (canBecomeMaster d s) = Threw")
      case True
      with c show ?thesis by (simp add: step)
    next
      case False
      with c have "coordinator (snd (elect_loop cands aliveDbs (snd (canBecomeMaster d s)))) = Some d"
        by (simp add: step)
      from el_coordinator [OF assms(2) this] False show ?thesis by (simp add: step)
    qed
    then show "coordinator s = Some d" and "fst (elect_loop (d # cands) aliveDbs s) = Threw"
      by simp_all }
next
  fix c assume c: "coordinator s = Some c \<and> lookup c (databases s) \<noteq> None"
  then obtain m where m: "lookup c (databases s) = Some m" by auto
  then have id: "db_id m = c" by (simp add: lookup_Some)
  show "snd (canBecomeMaster d s) = snd (syncDataFromMaster d c s)"
    using assms(1) c m id by (simp add: canBecomeMaster_def unfold_cases split: result.split)
  show "(fst (canBecomeMaster d s) = Threw) = (fst (syncDataFromMaster d c s) = Threw)"
    using assms(1) c m id by (simp add: canBecomeMaster_def unfold_cases split: result.split)
qed

theorem stale_candidate_is_rejected_witness:
  "term_of stale_state 2 < getHighestTerm stale_state
   \<and> fst (canBecomeMaster 2 stale_state) = Returned False
   \<and> snd (canBecomeMaster 2 stale_state) = snd (syncDataFromMaster 2 3 stale_state)
   \<and> tests (stores (snd (canBecomeMaster 2 stale_state)) 2)
       = [\<lparr>oid = 1, data = ''a'', createdAt = 5\<rparr>]
   \<and> elect_loop [2, 1] [2, 1] stale_state
       = elect_loop [1] [2, 1] (snd (canBecomeMaster 2 stale_state))
   \<and> role_of (snd (elect_loop [2, 1] [2, 1] stale_state)) 2 \<noteq> Master
   \<and> coordinator (snd (elect_loop [2, 1] [2, 1] stale_state)) \<noteq> Some 2
   \<and> term_of uneven_start 2 < getHighestTerm uneven_start
   \<and> canBecomeMaster 2 uneven_start = (Returned False, uneven_start)
   \<and> coordinator (snd (electCoordinator uneven_start)) = Some 1"
proof -
  have stale: "term_of stale_state 2 < getHighestTerm stale_state"
    and mem: "(2::int) \<notin> set [1]"
    and tracked: "coordinator stale_state = Some 3 \<and> lookup 3 (databases stale_state) \<noteq> None"
    and before: "role_of stale_state 2 \<noteq> Master" "coordinator stale_state \<noteq> Some 2"
    by (simp_all add: stale_state_def eval_defs)
  have r: "fst (canBecomeMaster 2 stale_state) = Returned False"
    and t: "tests (stores (snd (canBecomeMaster 2 stale_state)) 2)
              = [\<lparr>oid = 1, data = ''a'', createdAt = 5\<rparr>]"
    by (simp_all add: stale_state_def eval_defs)
  note T = stale_candidate_is_rejected [OF stale mem, where aliveDbs = "[2, 1]"]
  note T3 = T [THEN conjunct2, THEN conjunct2, THEN conjunct1, rule_format, OF tracked]
  note T4 = T [THEN conjunct2, THEN conjunct2, THEN conjunct2, THEN conjunct1]
  note T5 = T [THEN conjunct2, THEN conjunct2, THEN conjunct2, THEN conjunct2, THEN conjunct1,
      rule_format]
  note T6 = T [THEN conjunct2, THEN conjunct2, THEN conjunct2, THEN conjunct2, THEN conjunct2,
      rule_format]
  have step: "elect_loop [2, 1] [2, 1] stale_state
       = elect_loop [1] [2, 1] (snd (canBecomeMaster 2 stale_state))"
    using T4 by (simp only: r result.simps if_False)
  have nr: "role_of (snd (elect_loop [2, 1] [2, 1] stale_state)) 2 \<noteq> Master"
  proof
    assume "role_of (snd (elect_loop [2, 1] [2, 1] stale_state)) 2 = Master"
    from T5 [OF this] before(1) show False by (simp only: simp_thms)
  qed
  have nc: "coordinator (snd (elect_loop [2, 1] [2, 1] stale_state)) \<noteq> Some 2"
  proof
    assume "coordinator (snd (elect_loop [2, 1] [2, 1] stale_state)) = Some 2"
    from T6 [OF this] before(2) show False by (simp only: simp_thms)
  qed
  have stale': "term_of uneven_start 2 < getHighestTerm uneven_start"
    and none: "coordinator uneven_start = None"
    and won: "coordinator (snd (electCoordinator uneven_start)) = Some 1"
    by (simp_all add: eval_defs)
  note U = stale_candidate_is_rejected [OF stale' mem, where aliveDbs = "[2, 1]",
      THEN conjunct2, THEN conjunct1, rule_format, OF none]
  show ?thesis
    by (intro conjI stale r t step nr nc T3 [THEN conjunct1] stale' U won)
qed



text \<open>
  C3. The claim fails at the start of the process against storage that already holds
  terms: \<^verbatim>\<open>globalTerm\<close> starts at 0 in every process and is never set from the stored terms,
  while the health check reads the stored term of every node. Against storage in which
  both term documents hold 5, the health check gives both nodes the term 5; the first
  election makes the node 2 the master with the term 1, which is below the terms recorded
  before, and the terms of both nodes, in memory and in their term documents, go from 5
  to 1.
\<close>

theorem first_election_lowers_term:
  "metadata (stores (initial [2, 1] old_stores [] 0) 2) = Some 5
   \<and> metadata (stores (initial [2, 1] old_stores [] 0) 1) = Some 5
   \<and> term_of (connectDBs (initial [2, 1] old_stores [] 0)) 2 = 5
   \<and> term_of (connectDBs (initial [2, 1] old_stores [] 0)) 1 = 5
   \<and> fst (monitor_start (initial [2, 1] old_stores [] 0)) = Returned ()
   \<and> coordinator (snd (monitor_start (initial [2, 1] old_stores [] 0))) = Some 2
   \<and> globalTerm (snd (monitor_start (initial [2, 1] old_stores [] 0))) = 1
   \<and> term_of (snd (monitor_start (initial [2, 1] old_stores [] 0))) 2 = 1
   \<and> metadata (stores (snd (monitor_start (initial [2, 1] old_stores [] 0))) 2) = Some 1
   \<and> term_of (snd (monitor_start (initial [2, 1] old_stores [] 0))) 1 = 1
   \<and> metadata (stores (snd (monitor_start (initial [2, 1] old_stores [] 0))) 1) = Some 1"
  by (simp add: eval_defs)

theorem first_election_lowers_term_witness:
  "term_of (snd (monitor_start (initial [2, 1] old_stores [] 0))) 2
     < term_of (connectDBs (initial [2, 1] old_stores [] 0)) 2
   \<and> metadata (stores (snd (monitor_start (initial [2, 1] old_stores [] 0))) 2) = Some 1
   \<and> metadata (stores (initial [2, 1] old_stores [] 0) 2) = Some 5"
  using first_election_lowers_term by simp

section \<open>Failure of a synchronisation\<close>

text \<open>
  In \<^verbatim>\<open>syncDataFromMaster\<close> the update of the term is the last step. When a
  call throws, the term document of the target is as before, and the term of the target
  in memory has changed only if the documents of the source were read, those of the
  target deleted and the copies inserted. The function never changes which nodes are
  alive. When it throws in the reconnection of a node that was not alive (the
  \<^verbatim>\<open>try\<close> block of \<^verbatim>\<open>connectDBs\<close> for such a node when a master exists), that node is left
  not alive, with its term document as before.
\<close>

theorem failed_sync_keeps_term:
  "(fst (syncDataFromMaster d m s) = Threw \<longrightarrow>
      metadata (stores (snd (syncDataFromMaster d m s)) d) = metadata (stores s d)
    \<and> (term_of (snd (syncDataFromMaster d m s)) d \<noteq> term_of s d \<longrightarrow>
         tests (stores (snd (syncDataFromMaster d m s)) d)
           = fresh_copies (next_oid s) (tests (stores s m))))
   \<and> alive_of (snd (syncDataFromMaster d m s)) = alive_of s
   \<and> (fst (probe d s) \<noteq> Threw \<and> fst (syncDataFromMaster d m (snd (probe d s))) = Threw \<longrightarrow>
        \<not> alive_of (rejoin d m s) d
      \<and> metadata (stores (rejoin d m s) d) = metadata (stores s d)
      \<and> (term_of (rejoin d m s) d \<noteq> term_of s d \<longrightarrow>
           tests (stores (rejoin d m s) d) = fresh_copies (next_oid s) (tests (stores s m))))"
proof (intro conjI impI)
  assume f: "fst (syncDataFromMaster d m s) = Threw"
  show "metadata (stores (snd (syncDataFromMaster d m s)) d) = metadata (stores s d)"
    by (rule sync_Threw(1) [OF f])
  show "tests (stores (snd (syncDataFromMaster d m s)) d)
          = fresh_copies (next_oid s) (tests (stores s m))"
    if "term_of (snd (syncDataFromMaster d m s)) d \<noteq> term_of s d"
    by (rule sync_Threw(2) [OF f that])
next
  show "alive_of (snd (syncDataFromMaster d m s)) = alive_of s" by simp
next
  assume a: "fst (probe d s) \<noteq> Threw \<and> fst (syncDataFromMaster d m (snd (probe d s))) = Threw"
  then have f: "fst (syncDataFromMaster d m (snd (probe d s))) = Threw" by simp
  have eq: "rejoin d m s = catch_rejoin d (snd (syncDataFromMaster d m (snd (probe d s))))"
    using a by (simp add: rejoin_failed_sync)
  show "\<not> alive_of (rejoin d m s) d"
    by (simp add: eq catch_rejoin_alive)
  show "metadata (stores (rejoin d m s) d) = metadata (stores s d)"
    using sync_Threw(1) [OF f] by (simp add: eq)
  show "tests (stores (rejoin d m s) d) = fresh_copies (next_oid s) (tests (stores s m))"
    if "term_of (rejoin d m s) d \<noteq> term_of s d"
  proof -
    from that have "term_of (snd (syncDataFromMaster d m (snd (probe d s)))) d
                      \<noteq> term_of (snd (probe d s)) d"
      by (simp add: eq)
    from sync_Threw(2) [OF f this] show ?thesis by (simp add: eq)
  qed
qed

theorem failed_sync_keeps_term_witness:
  "fst (probe 1 down_state) = Returned ()
   \<and> fst (syncDataFromMaster 1 2 (snd (probe 1 down_state))) = Threw
   \<and> \<not> alive_of (rejoin 1 2 down_state) 1
   \<and> metadata (stores (rejoin 1 2 down_state) 1) = metadata (stores down_state 1)
   \<and> term_of (rejoin 1 2 down_state) 1 = 1
   \<and> term_of down_state 2 = 3
   \<and> tests (stores (rejoin 1 2 down_state) 1) = []"
proof -
  have p: "fst (probe 1 down_state) = Returned ()"
    and f: "fst (syncDataFromMaster 1 2 (snd (probe 1 down_state))) = Threw"
    and e: "term_of (rejoin 1 2 down_state) 1 = 1" "term_of down_state 2 = 3"
      "tests (stores (rejoin 1 2 down_state) 1) = []"
    by (simp_all add: down_state_def eval_defs)
  have a: "fst (probe 1 down_state) \<noteq> Threw
           \<and> fst (syncDataFromMaster 1 2 (snd (probe 1 down_state))) = Threw"
    using p f by simp
  note T = failed_sync_keeps_term [where d = 1 and m = 2 and s = down_state,
      THEN conjunct2, THEN conjunct2, rule_format, OF a]
  show ?thesis
    by (intro conjI p f e T [THEN conjunct1] T [THEN conjunct2, THEN conjunct1])
qed

text \<open>
  C6. The claim fails in \<^verbatim>\<open>electCoordinator\<close>, which sets and persists the term of every
  other alive node before it calls \<^verbatim>\<open>syncDataFromMaster\<close> (lines 213 to 217) and has no
  \<^verbatim>\<open>catch\<close>, whereas \<^verbatim>\<open>connectDBs\<close> catches a failed synchronisation and marks the node not
  alive. At the start of the process against storage in which the node 1 holds a
  document, with the read of the master's documents failing (the thirteenth awaited
  call), the election is left by the exception; the node 1 is still alive, its term in
  memory and in its term document is the new term 1 of the master 2, and it still holds
  its old document, which the master does not have.
\<close>

theorem election_keeps_unsynced_node:
  "fst (monitor_start failing_start) = Threw
   \<and> coordinator (snd (monitor_start failing_start)) = Some 2
   \<and> alive_of (snd (monitor_start failing_start)) 1
   \<and> role_of (snd (monitor_start failing_start)) 1 = Slave
   \<and> term_of (connectDBs failing_start) 1 = 0
   \<and> metadata (stores (connectDBs failing_start) 1) = Some 0
   \<and> term_of (snd (monitor_start failing_start)) 1 = 1
   \<and> metadata (stores (snd (monitor_start failing_start)) 1) = Some 1
   \<and> term_of (snd (monitor_start failing_start)) 2 = 1
   \<and> tests (stores (snd (monitor_start failing_start)) 2) = []
   \<and> tests (stores (snd (monitor_start failing_start)) 1)
       = [\<lparr>oid = 0, data = ''x'', createdAt = 1\<rparr>]"
  by (simp add: failing_start_def eval_defs)

theorem election_keeps_unsynced_node_witness:
  "fst (monitor_start failing_start) = Threw
   \<and> alive_of (snd (monitor_start failing_start)) 1
   \<and> term_of (snd (monitor_start failing_start)) 1
       = term_of (snd (monitor_start failing_start)) 2
   \<and> tests (stores (snd (monitor_start failing_start)) 1)
       \<noteq> tests (stores (snd (monitor_start failing_start)) 2)"
  using election_keeps_unsynced_node by simp

section \<open>At most one master\<close>

text \<open>
  When no handler waits while something else runs: after every run of \<^verbatim>\<open>connectDBs\<close>, of
  \<^verbatim>\<open>electCoordinator\<close> (called as \<^verbatim>\<open>monitor\<close> calls it, when no alive coordinator is
  tracked) and of a request handler with the empty schedule, whatever fails in them, at
  most one descriptor of the registry is alive with the role of master. The states of
  the coordination loop are among them (\<open>sequential_monitor_start\<close>,
  \<open>sequential_monitor_tick\<close>).
\<close>

theorem sequential_one_master:
  assumes "sequential s"
  shows "length (filter (\<lambda>d. alive d \<and> role d = Master) (databases s)) \<le> 1"
proof -
  from assms have inv: "settled s" by (rule sequential_settled)
  then have d: "distinct (map db_id (databases s))" by (simp add: settled_def)
  have "Some (db_id x) = coordinator s"
    if "x \<in> set (databases s)" "alive x \<and> role x = Master" for x
  proof -
    from d that(1) have "lookup (db_id x) (databases s) = Some x" by (rule lookup_member)
    with that(2) have "role_of s (db_id x) = Master" by (simp add: role_of_def)
    with inv show ?thesis by (simp add: settled_def)
  qed
  then have "\<forall>x \<in> set (databases s). alive x \<and> role x = Master \<longrightarrow> db_id x = the (coordinator s)"
    by (metis option.sel)
  with d show ?thesis by (rule count_le_one)
qed

theorem sequential_one_master_witness:
  "sequential failed_over
   \<and> length (filter (\<lambda>d. alive d \<and> role d = Master) (databases failed_over)) \<le> 1
   \<and> databases failed_over
       = [\<lparr>db_id = 2, role = Unknown, alive = False, connection = False, db_term = 1\<rparr>,
          \<lparr>db_id = 1, role = Master, alive = True, connection = True, db_term = 2\<rparr>]
   \<and> databases started
       = [\<lparr>db_id = 2, role = Master, alive = True, connection = True, db_term = 1\<rparr>,
          \<lparr>db_id = 1, role = Slave, alive = True, connection = True, db_term = 1\<rparr>]"
proof -
  have "sequential started"
    unfolding started_def by (rule sequential_monitor_start) simp
  then have "sequential (started\<lparr>stores := stores started, outcomes := [False]\<rparr>)"
    by (rule sequential.world)
  then have r: "sequential failed_over"
    unfolding failed_over_def by (rule sequential_monitor_tick)
  have e: "databases started
       = [\<lparr>db_id = 2, role = Master, alive = True, connection = True, db_term = 1\<rparr>,
          \<lparr>db_id = 1, role = Slave, alive = True, connection = True, db_term = 1\<rparr>]"
    by (simp add: eval_defs)
  have f: "databases failed_over
       = [\<lparr>db_id = 2, role = Unknown, alive = False, connection = False, db_term = 1\<rparr>,
          \<lparr>db_id = 1, role = Master, alive = True, connection = True, db_term = 2\<rparr>]"
    by (simp add: eval_defs)
  note T = sequential_one_master [OF r]
  show ?thesis
    by (intro conjI r T e f)
qed

text \<open>
  C1. The claim fails after a write whose \<^verbatim>\<open>catch\<close> for a slave runs late. The array
  \<^verbatim>\<open>slaves\<close> is filled before the loop (line 258) and \<^verbatim>\<open>slave.alive = false\<close> is set when the
  awaited save has rejected (line 266); the role is left as it is, as in the \<^verbatim>\<open>catch\<close> of a
  reconnection (lines 98 to 102), while the \<^verbatim>\<open>catch\<close> for an alive node in \<^verbatim>\<open>connectDBs\<close>
  also resets the role (line 112). In \<open>late_catch\<close> the cluster has started with the
  master 2 and the slave 1. While the save on the node 1 is pending, a tick finds the
  node 2 unreachable and elects the node 1; the save is rejected and the handler marks the
  node 1, now the master and the coordinator, as not alive. In the next tick
  \<^verbatim>\<open>connectDBs\<close> takes the node 1 for the master, reconnects the node 2 and fails to
  reconnect the node 1, which keeps its role; the coordinator being not alive, the
  node 2 is elected, and the node 1, not being alive, is not made a slave. In the tick
  after that every call succeeds: the node 1 is reconnected and synchronised and still
  has the role of master, the coordinator 2 is alive and no election is held. Between
  this tick and the next, both descriptors are alive with the role of master.
\<close>

theorem late_catch_two_masters:
  "databases started
     = [\<lparr>db_id = 2, role = Master, alive = True, connection = True, db_term = 1\<rparr>,
        \<lparr>db_id = 1, role = Slave, alive = True, connection = True, db_term = 1\<rparr>]
   \<and> coordinator started = Some 2
   \<and> fst late_catch = Written 1 2
   \<and> databases (snd late_catch)
       = [\<lparr>db_id = 2, role = Unknown, alive = False, connection = False, db_term = 1\<rparr>,
          \<lparr>db_id = 1, role = Master, alive = False, connection = True, db_term = 2\<rparr>]
   \<and> coordinator (snd late_catch) = Some 1
   \<and> databases second_failover
       = [\<lparr>db_id = 2, role = Master, alive = True, connection = True, db_term = 3\<rparr>,
          \<lparr>db_id = 1, role = Master, alive = False, connection = False, db_term = 2\<rparr>]
   \<and> coordinator second_failover = Some 2
   \<and> fst (monitor_tick second_failover) = Returned ()
   \<and> databases two_masters
       = [\<lparr>db_id = 2, role = Master, alive = True, connection = True, db_term = 3\<rparr>,
          \<lparr>db_id = 1, role = Master, alive = True, connection = True, db_term = 3\<rparr>]
   \<and> coordinator two_masters = Some 2
   \<and> \<not> coordinator_down two_masters
   \<and> length (filter (\<lambda>d. alive d \<and> role d = Master) (databases two_masters)) = 2"
  by (simp add: eval_defs)

theorem late_catch_two_masters_witness:
  "1 < length (filter (\<lambda>d. alive d \<and> role d = Master) (databases two_masters))
   \<and> alive_of two_masters 1 \<and> role_of two_masters 1 = Master
   \<and> alive_of two_masters 2 \<and> role_of two_masters 2 = Master"
  using late_catch_two_masters by (simp add: alive_of_def role_of_def lookup_def)

end
